theory Spec2Isabelle
  imports Main "HOL-Library.Word" "HOL-Library.Multiset" "HOL-Library.Char_ord"
    "HOL-Library.List_Lexorder"
begin

unbundle bit_operations_syntax

section \<open>Data model\<close>

text \<open>
  Go's \<open>int\<close>, \<open>int64\<close> and \<open>time.Duration\<close> are 64-bit two's complement values on the
  platform the Dockerfile builds for; they are modelled as \<open>64 word\<close>, read with
  \<open>sint\<close> and compared with the signed orders \<open><s\<close> and \<open>\<le>s\<close>.
  Strings are byte sequences, as in Go.
\<close>

type_synonym go_int = "64 word"
type_synonym duration = "64 word"

text \<open>\<open>net/url.Userinfo\<close> and \<open>net/url.URL\<close>.\<close>

record Userinfo =
  username :: string
  password :: string
  passwordSet :: bool

record URL =
  Scheme :: string
  Opaque :: string
  User :: "Userinfo option"
  Host :: string
  Path :: string
  RawPath :: string
  OmitHost :: bool
  ForceQuery :: bool
  RawQuery :: string
  Fragment :: string
  RawFragment :: string

text \<open>
  \<open>types.Request\<close> (part_003). The fields \<open>Headers\<close>, \<open>Meta\<close>, \<open>Callbacks\<close> and
  \<open>CreatedAt\<close> are read by none of the functions modelled here and are left out.
  \<open>URL\<close> is a pointer that may be nil.
\<close>

record Request =
  URL :: "URL option"
  Method :: string
  Body :: string
  Depth :: go_int
  Priority :: go_int
  MaxRetries :: go_int
  RetryCount :: go_int
  Timeout :: duration
  Tag :: string
  FetcherType :: string
  ParentURL :: string
  ID :: string

definition PriorityHighest :: go_int where "PriorityHighest = 0"
definition PriorityHigh :: go_int where "PriorityHigh = 1"
definition PriorityNormal :: go_int where "PriorityNormal = 2"
definition PriorityLow :: go_int where "PriorityLow = 3"
definition PriorityLowest :: go_int where "PriorityLowest = 4"

section \<open>The Go library functions the crawl core calls\<close>

text \<open>
  \<open>CanonicalizeURL\<close>, \<open>Request.URLString\<close>, \<open>Request.Domain\<close> and
  \<open>RobotsManager.IsAllowed\<close> are written on top of Go's \<open>strings\<close> and \<open>net/url\<close>
  packages. This section follows those packages as they stand in Go 1.22, the toolchain
  the Dockerfile builds with, function by function and under their Go names.
\<close>

subsection \<open>Package \<open>strings\<close>\<close>

definition HasPrefix :: "string \<Rightarrow> string \<Rightarrow> bool" where
  "HasPrefix s p = (take (length p) s = p)"

definition HasSuffix :: "string \<Rightarrow> string \<Rightarrow> bool" where
  "HasSuffix s p = (length p \<le> length s \<and> drop (length s - length p) s = p)"

text \<open>\<open>strings.Index\<close>: the first position where \<open>sub\<close> occurs, \<open>None\<close> for Go's \<open>-1\<close>.\<close>

fun Index :: "string \<Rightarrow> string \<Rightarrow> nat option" where
  "Index [] sub = (if sub = [] then Some 0 else None)"
| "Index (c # s) sub =
     (if HasPrefix (c # s) sub then Some 0 else map_option Suc (Index s sub))"

text \<open>\<open>strings.LastIndex\<close>: the last position where \<open>sub\<close> occurs.\<close>

fun LastIndex :: "string \<Rightarrow> string \<Rightarrow> nat option" where
  "LastIndex [] sub = (if sub = [] then Some 0 else None)"
| "LastIndex (c # s) sub =
     (case LastIndex s sub of
        Some i \<Rightarrow> Some (Suc i)
      | None \<Rightarrow> (if HasPrefix (c # s) sub then Some 0 else None))"

definition Contains :: "string \<Rightarrow> string \<Rightarrow> bool" where
  "Contains s sub = (Index s sub \<noteq> None)"

definition Cut :: "string \<Rightarrow> string \<Rightarrow> string \<times> string \<times> bool" where
  "Cut s sep =
     (case Index s sep of
        Some i \<Rightarrow> (take i s, drop (i + length sep) s, True)
      | None \<Rightarrow> (s, [], False))"

text \<open>\<open>strings.Count\<close> for a separator of one byte, the only use made of it.\<close>

definition CountByte :: "string \<Rightarrow> char \<Rightarrow> nat" where
  "CountByte s c = length (filter (\<lambda>x. x = c) s)"

text \<open>\<open>strings.TrimRight\<close> for a cutset of one ASCII byte.\<close>

definition TrimRightByte :: "string \<Rightarrow> char \<Rightarrow> string" where
  "TrimRightByte s c = rev (dropWhile (\<lambda>x. x = c) (rev s))"

fun Join :: "string list \<Rightarrow> string \<Rightarrow> string" where
  "Join [] sep = []"
| "Join [a] sep = a"
| "Join (a # b # rest) sep = a @ sep @ Join (b # rest) sep"

text \<open>
  \<open>strings.ToLower\<close> maps \<open>A\<close>..\<open>Z\<close> to \<open>a\<close>..\<open>z\<close> in a string of ASCII bytes. A string
  with a byte from \<open>0x80\<close> on goes through \<open>strings.Map(unicode.ToLower, s)\<close>, which
  depends on the Unicode tables: that function is the parameter \<open>ul\<close>.
\<close>

text \<open>\<open>inRange lo hi c\<close> is Go's \<open>lo <= c && c <= hi\<close> on bytes.\<close>

definition inRange :: "char \<Rightarrow> char \<Rightarrow> char \<Rightarrow> bool" where
  "inRange lo hi c = (lo \<le> c \<and> c \<le> hi)"

definition lower_byte :: "char \<Rightarrow> char" where
  "lower_byte c = (if inRange CHR ''A'' CHR ''Z'' c then char_of (of_char c + (32::nat)) else c)"

definition ToLower :: "(string \<Rightarrow> string) \<Rightarrow> string \<Rightarrow> string" where
  "ToLower ul s = (if list_all (\<lambda>c. c < CHR 0x80) s then map lower_byte s else ul s)"

subsection \<open>Package \<open>net/url\<close>: escaping\<close>

datatype encoding =
  encodePath | encodePathSegment | encodeHost | encodeZone
  | encodeUserPassword | encodeQueryComponent | encodeFragment

definition is_alnum :: "char \<Rightarrow> bool" where
  "is_alnum c =
     (inRange CHR ''a'' CHR ''z'' c \<or> inRange CHR ''A'' CHR ''Z'' c \<or> inRange CHR ''0'' CHR ''9'' c)"

definition host_subdelims :: "char list" where
  "host_subdelims = ''!$&()*+,;=:[]<>'' @ [CHR 0x27, CHR 0x22]"

definition shouldEscape :: "char \<Rightarrow> encoding \<Rightarrow> bool" where
  "shouldEscape c mode =
     (if is_alnum c then False
      else if (mode = encodeHost \<or> mode = encodeZone) \<and> c \<in> set host_subdelims then False
      else if c \<in> set ''-_.~'' then False
      else if c \<in> set ''$&+,/:;=?@'' \<and> mode = encodePath then c = CHR ''?''
      else if c \<in> set ''$&+,/:;=?@'' \<and> mode = encodePathSegment then c \<in> set ''/;,?''
      else if c \<in> set ''$&+,/:;=?@'' \<and> mode = encodeUserPassword then c \<in> set ''@/?:''
      else if c \<in> set ''$&+,/:;=?@'' \<and> mode = encodeQueryComponent then True
      else if c \<in> set ''$&+,/:;=?@'' \<and> mode = encodeFragment then False
      else if mode = encodeFragment \<and> c \<in> set ''!()*'' then False
      else True)"

definition ishex :: "char \<Rightarrow> bool" where
  "ishex c =
     (inRange CHR ''0'' CHR ''9'' c \<or> inRange CHR ''a'' CHR ''f'' c \<or> inRange CHR ''A'' CHR ''F'' c)"

definition unhex :: "char \<Rightarrow> nat" where
  "unhex c =
     (if inRange CHR ''0'' CHR ''9'' c then of_char c - of_char CHR ''0''
      else if inRange CHR ''a'' CHR ''f'' c then of_char c - of_char CHR ''a'' + 10
      else if inRange CHR ''A'' CHR ''F'' c then of_char c - of_char CHR ''A'' + 10
      else 0)"

definition unhex2 :: "char \<Rightarrow> char \<Rightarrow> char" where
  "unhex2 a b = char_of (unhex a * 16 + unhex b)"

text \<open>
  \<open>unescape\<close> first walks the string to check it (\<open>unescape_ok\<close>: no error is returned),
  then builds the result (\<open>unescape_build\<close>).
\<close>

fun unescape_ok :: "encoding \<Rightarrow> string \<Rightarrow> bool" where
  "unescape_ok mode [] = True"
| "unescape_ok mode (c # s) =
     (if c = CHR ''%'' then
        (case s of
           a # b # rest \<Rightarrow>
             if \<not> ishex a \<or> \<not> ishex b then False
             else if mode = encodeHost \<and> unhex a < 8 \<and> [c, a, b] \<noteq> ''%25'' then False
             else if mode = encodeZone \<and> [c, a, b] \<noteq> ''%25'' \<and> unhex2 a b \<noteq> CHR '' ''
                     \<and> shouldEscape (unhex2 a b) encodeHost then False
             else unescape_ok mode rest
         | _ \<Rightarrow> False)
      else if c = CHR ''+'' then unescape_ok mode s
      else if (mode = encodeHost \<or> mode = encodeZone) \<and> c < CHR 0x80
              \<and> shouldEscape c encodeHost then False
      else unescape_ok mode s)"

fun unescape_build :: "encoding \<Rightarrow> string \<Rightarrow> string" where
  "unescape_build mode [] = []"
| "unescape_build mode (c # s) =
     (if c = CHR ''%'' then
        (case s of
           a # b # rest \<Rightarrow> unhex2 a b # unescape_build mode rest
         | _ \<Rightarrow> c # unescape_build mode s)
      else if c = CHR ''+'' \<and> mode = encodeQueryComponent then CHR '' '' # unescape_build mode s
      else c # unescape_build mode s)"

definition unescape :: "string \<Rightarrow> encoding \<Rightarrow> string option" where
  "unescape s mode = (if unescape_ok mode s then Some (unescape_build mode s) else None)"

definition upperhex :: "nat \<Rightarrow> char" where
  "upperhex n = ''0123456789ABCDEF'' ! n"

fun escape :: "string \<Rightarrow> encoding \<Rightarrow> string" where
  "escape [] mode = []"
| "escape (c # s) mode =
     (if shouldEscape c mode then
        (if c = CHR '' '' \<and> mode = encodeQueryComponent then CHR ''+'' # escape s mode
         else CHR ''%'' # upperhex (of_char c div 16) # upperhex (of_char c mod 16)
              # escape s mode)
      else c # escape s mode)"

definition QueryUnescape :: "string \<Rightarrow> string option" where
  "QueryUnescape s = unescape s encodeQueryComponent"

definition QueryEscape :: "string \<Rightarrow> string" where
  "QueryEscape s = escape s encodeQueryComponent"

fun validEncoded :: "string \<Rightarrow> encoding \<Rightarrow> bool" where
  "validEncoded [] mode = True"
| "validEncoded (c # s) mode =
     (if c \<in> set ''!$&()*+,;=:@[]%'' \<or> c = CHR 0x27 then validEncoded s mode
      else if shouldEscape c mode then False
      else validEncoded s mode)"

subsection \<open>Package \<open>net/url\<close>: parsing\<close>

definition empty_URL :: URL where
  "empty_URL =
     \<lparr>Scheme = [], Opaque = [], User = None, Host = [], Path = [], RawPath = [],
      OmitHost = False, ForceQuery = False, RawQuery = [], Fragment = [], RawFragment = []\<rparr>"

definition stringContainsCTLByte :: "string \<Rightarrow> bool" where
  "stringContainsCTLByte s = list_ex (\<lambda>b. b < CHR '' '' \<or> b = CHR 0x7F) s"

text \<open>
  \<open>getScheme\<close> scans from index \<open>i\<close>; \<open>None\<close> is the error "missing protocol scheme".
\<close>

function getScheme_from :: "string \<Rightarrow> nat \<Rightarrow> (string \<times> string) option" where
  "getScheme_from rawURL i =
     (if i \<ge> length rawURL then Some ([], rawURL)
      else let c = rawURL ! i
           in if inRange CHR ''a'' CHR ''z'' c \<or> inRange CHR ''A'' CHR ''Z'' c
              then getScheme_from rawURL (i + 1)
              else if inRange CHR ''0'' CHR ''9'' c \<or> c \<in> set ''+-.''
              then (if i = 0 then Some ([], rawURL) else getScheme_from rawURL (i + 1))
              else if c = CHR '':''
              then (if i = 0 then None else Some (take i rawURL, drop (i + 1) rawURL))
              else Some ([], rawURL))"
  by pat_completeness auto
termination
  by (relation "measure (\<lambda>(rawURL, i). length rawURL - i)") auto

declare getScheme_from.simps [simp del]

definition getScheme :: "string \<Rightarrow> (string \<times> string) option" where
  "getScheme rawURL = getScheme_from rawURL 0"

definition validOptionalPort :: "string \<Rightarrow> bool" where
  "validOptionalPort port =
     (case port of
        [] \<Rightarrow> True
      | c # ds \<Rightarrow> c = CHR '':'' \<and> list_all (inRange CHR ''0'' CHR ''9'') ds)"

definition parseHost :: "string \<Rightarrow> string option" where
  "parseHost host =
     (if HasPrefix host ''['' then
        (case LastIndex host '']'' of
           None \<Rightarrow> None
         | Some i \<Rightarrow>
             if \<not> validOptionalPort (drop (i + 1) host) then None
             else (case Index (take i host) ''%25'' of
                     Some zone \<Rightarrow>
                       (case unescape (take zone host) encodeHost of
                          None \<Rightarrow> None
                        | Some host1 \<Rightarrow>
                            (case unescape (drop zone (take i host)) encodeZone of
                               None \<Rightarrow> None
                             | Some host2 \<Rightarrow>
                                 (case unescape (drop i host) encodeHost of
                                    None \<Rightarrow> None
                                  | Some host3 \<Rightarrow> Some (host1 @ host2 @ host3))))
                   | None \<Rightarrow> unescape host encodeHost))
      else (case LastIndex host '':'' of
              Some i \<Rightarrow>
                if \<not> validOptionalPort (drop i host) then None
                else unescape host encodeHost
            | None \<Rightarrow> unescape host encodeHost))"

definition validUserinfo :: "string \<Rightarrow> bool" where
  "validUserinfo s =
     list_all (\<lambda>r. is_alnum r \<or> r \<in> set ''-._:~!$&()*+,;=%@'' \<or> r = CHR 0x27) s"

definition parseAuthority :: "string \<Rightarrow> (Userinfo option \<times> string) option" where
  "parseAuthority authority =
     (let i = LastIndex authority ''@''
      in case (case i of None \<Rightarrow> parseHost authority
                       | Some k \<Rightarrow> parseHost (drop (k + 1) authority)) of
           None \<Rightarrow> None
         | Some host \<Rightarrow>
             (case i of
                None \<Rightarrow> Some (None, host)
              | Some k \<Rightarrow>
                  let userinfo = take k authority
                  in if \<not> validUserinfo userinfo then None
                     else if \<not> Contains userinfo '':'' then
                       (case unescape userinfo encodeUserPassword of
                          None \<Rightarrow> None
                        | Some un \<Rightarrow>
                            Some (Some \<lparr>username = un, password = [], passwordSet = False\<rparr>,
                                  host))
                     else
                       (case Cut userinfo '':'' of
                          (un0, pw0, _) \<Rightarrow>
                            (case unescape un0 encodeUserPassword of
                               None \<Rightarrow> None
                             | Some un \<Rightarrow>
                                 (case unescape pw0 encodeUserPassword of
                                    None \<Rightarrow> None
                                  | Some pw \<Rightarrow>
                                      Some (Some \<lparr>username = un, password = pw,
                                                  passwordSet = True\<rparr>, host))))))"

definition setPath :: "URL \<Rightarrow> string \<Rightarrow> URL option" where
  "setPath u p =
     (case unescape p encodePath of
        None \<Rightarrow> None
      | Some path \<Rightarrow>
          Some (u\<lparr>Path := path,
                  RawPath := (if p = escape path encodePath then [] else p)\<rparr>))"

definition setFragment :: "URL \<Rightarrow> string \<Rightarrow> URL option" where
  "setFragment u f =
     (case unescape f encodeFragment of
        None \<Rightarrow> None
      | Some frag \<Rightarrow>
          Some (u\<lparr>Fragment := frag,
                  RawFragment := (if f = escape frag encodeFragment then [] else f)\<rparr>))"

text \<open>
  \<open>parse(rawURL, viaRequest)\<close> with \<open>viaRequest = false\<close>, as \<open>url.Parse\<close> calls it. The
  scheme \<open>getScheme\<close> returns holds ASCII letters, digits, \<open>+\<close>, \<open>-\<close> and \<open>.\<close> only, so
  \<open>strings.ToLower\<close> of it is the byte-wise lowering (lemma \<open>getScheme_ToLower\<close>).
\<close>

definition parse :: "string \<Rightarrow> URL option" where
  "parse rawURL =
     (if stringContainsCTLByte rawURL then None
      else if rawURL = ''*'' then Some (empty_URL\<lparr>Path := ''*''\<rparr>)
      else
        (case getScheme rawURL of
           None \<Rightarrow> None
         | Some (scheme, rest0) \<Rightarrow>
             let url0 = empty_URL\<lparr>Scheme := map lower_byte scheme\<rparr>;
                 url = (if HasSuffix rest0 ''?'' \<and> CountByte rest0 CHR ''?'' = 1
                        then url0\<lparr>ForceQuery := True\<rparr>
                        else url0\<lparr>RawQuery := fst (snd (Cut rest0 ''?''))\<rparr>);
                 rest = (if HasSuffix rest0 ''?'' \<and> CountByte rest0 CHR ''?'' = 1
                         then butlast rest0
                         else fst (Cut rest0 ''?''))
             in if \<not> HasPrefix rest ''/'' \<and> Scheme url \<noteq> [] then Some (url\<lparr>Opaque := rest\<rparr>)
                else if \<not> HasPrefix rest ''/'' \<and> Contains (fst (Cut rest ''/'')) '':''
                then None
                else if (Scheme url \<noteq> [] \<or> \<not> HasPrefix rest ''///'') \<and> HasPrefix rest ''//''
                then
                  (let authority0 = drop 2 rest;
                       authority = (case Index authority0 ''/'' of
                                      Some i \<Rightarrow> take i authority0 | None \<Rightarrow> authority0);
                       rest' = (case Index authority0 ''/'' of
                                  Some i \<Rightarrow> drop i authority0 | None \<Rightarrow> [])
                   in case parseAuthority authority of
                        None \<Rightarrow> None
                      | Some (user, host) \<Rightarrow> setPath (url\<lparr>User := user, Host := host\<rparr>) rest')
                else if Scheme url \<noteq> [] \<and> HasPrefix rest ''/''
                then setPath (url\<lparr>OmitHost := True\<rparr>) rest
                else setPath url rest))"

definition Parse :: "string \<Rightarrow> URL option" where
  "Parse rawURL =
     (case Cut rawURL ''#'' of
        (u, frag, _) \<Rightarrow>
          (case parse u of
             None \<Rightarrow> None
           | Some url \<Rightarrow> if frag = [] then Some url else setFragment url frag))"

subsection \<open>Package \<open>net/url\<close>: host, port and query\<close>

definition splitHostPort :: "string \<Rightarrow> string \<times> string" where
  "splitHostPort hostPort =
     (let colon = LastIndex hostPort '':'';
          split = (case colon of
                     Some i \<Rightarrow> validOptionalPort (drop i hostPort) | None \<Rightarrow> False);
          host = (if split then take (the colon) hostPort else hostPort);
          port = (if split then drop (the colon + 1) hostPort else [])
      in (if HasPrefix host ''['' \<and> HasSuffix host '']''
          then (butlast (tl host), port) else (host, port)))"

definition Hostname :: "URL \<Rightarrow> string" where
  "Hostname u = fst (splitHostPort (Host u))"

definition Port :: "URL \<Rightarrow> string" where
  "Port u = snd (splitHostPort (Host u))"

text \<open>
  \<open>url.Values\<close> is a \<open>map[string][]string\<close>: here a list of keys with their values, a key
  entered where it first occurs. \<open>values_add m k v\<close> is \<open>m[k] = append(m[k], v)\<close>.
\<close>

type_synonym Values = "(string \<times> string list) list"

fun values_add :: "Values \<Rightarrow> string \<Rightarrow> string \<Rightarrow> Values" where
  "values_add [] k v = [(k, [v])]"
| "values_add ((k', vs) # m) k v =
     (if k' = k then (k', vs @ [v]) # m else (k', vs) # values_add m k v)"

fun values_get :: "Values \<Rightarrow> string \<Rightarrow> string list" where
  "values_get [] k = []"
| "values_get ((k', vs) # m) k = (if k' = k then vs else values_get m k)"

lemma Cut_rest_shorter:
  "query \<noteq> [] \<Longrightarrow> length (fst (snd (Cut query [c]))) < length query"
  by (auto simp: Cut_def split: option.splits)

function parseQuery :: "Values \<Rightarrow> string \<Rightarrow> Values" where
  "parseQuery m query =
     (if query = [] then m
      else let key = fst (Cut query ''&''); query' = fst (snd (Cut query ''&''))
           in if Contains key '';'' then parseQuery m query'
              else if key = [] then parseQuery m query'
              else (case QueryUnescape (fst (Cut key ''='')) of
                      None \<Rightarrow> parseQuery m query'
                    | Some k \<Rightarrow>
                        (case QueryUnescape (fst (snd (Cut key ''=''))) of
                           None \<Rightarrow> parseQuery m query'
                         | Some v \<Rightarrow> parseQuery (values_add m k v) query')))"
  by pat_completeness auto
termination
  by (relation "measure (\<lambda>(m, query). length query)") (auto simp: Cut_rest_shorter)

declare parseQuery.simps [simp del]

definition Query :: "URL \<Rightarrow> Values" where
  "Query u = parseQuery [] (RawQuery u)"

subsection \<open>Package \<open>net/url\<close>: printing\<close>

definition EscapedPath :: "URL \<Rightarrow> string" where
  "EscapedPath u =
     (if RawPath u \<noteq> [] \<and> validEncoded (RawPath u) encodePath
         \<and> unescape (RawPath u) encodePath = Some (Path u)
      then RawPath u
      else if Path u = ''*'' then ''*''
      else escape (Path u) encodePath)"

definition EscapedFragment :: "URL \<Rightarrow> string" where
  "EscapedFragment u =
     (if RawFragment u \<noteq> [] \<and> validEncoded (RawFragment u) encodeFragment
         \<and> unescape (RawFragment u) encodeFragment = Some (Fragment u)
      then RawFragment u
      else escape (Fragment u) encodeFragment)"

definition Userinfo_String :: "Userinfo \<Rightarrow> string" where
  "Userinfo_String ui =
     escape (username ui) encodeUserPassword
     @ (if passwordSet ui then '':'' @ escape (password ui) encodeUserPassword else [])"

definition URL_String :: "URL \<Rightarrow> string" where
  "URL_String u =
     (let buf0 = (if Scheme u \<noteq> [] then Scheme u @ '':'' else []);
          buf1 =
            (if Opaque u \<noteq> [] then buf0 @ Opaque u
             else
               let bufa =
                     (if Scheme u \<noteq> [] \<or> Host u \<noteq> [] \<or> User u \<noteq> None then
                        (if OmitHost u \<and> Host u = [] \<and> User u = None then buf0
                         else buf0
                              @ (if Host u \<noteq> [] \<or> Path u \<noteq> [] \<or> User u \<noteq> None
                                 then ''//'' else [])
                              @ (case User u of
                                   Some ui \<Rightarrow> Userinfo_String ui @ ''@'' | None \<Rightarrow> [])
                              @ (if Host u \<noteq> [] then escape (Host u) encodeHost else []))
                      else buf0);
                   path = EscapedPath u;
                   bufb = (if path \<noteq> [] \<and> \<not> HasPrefix path ''/'' \<and> Host u \<noteq> []
                           then bufa @ ''/'' else bufa);
                   bufc = (if bufb = [] \<and> Contains (fst (Cut path ''/'')) '':''
                           then bufb @ ''./'' else bufb)
               in bufc @ path);
          buf2 = (if ForceQuery u \<or> RawQuery u \<noteq> [] then buf1 @ ''?'' @ RawQuery u else buf1)
      in if Fragment u \<noteq> [] then buf2 @ ''#'' @ EscapedFragment u else buf2)"

subsection \<open>Package \<open>crypto/sha256\<close> and \<open>encoding/hex\<close>\<close>

text \<open>SHA-256 as FIPS 180-4 defines it, on 32-bit words.\<close>

type_synonym u32 = "32 word"

definition sha_K :: "u32 list" where
  "sha_K =
     [0x428A2F98, 0x71374491, 0xB5C0FBCF, 0xE9B5DBA5, 0x3956C25B, 0x59F111F1, 0x923F82A4,
      0xAB1C5ED5, 0xD807AA98, 0x12835B01, 0x243185BE, 0x550C7DC3, 0x72BE5D74, 0x80DEB1FE,
      0x9BDC06A7, 0xC19BF174, 0xE49B69C1, 0xEFBE4786, 0x0FC19DC6, 0x240CA1CC, 0x2DE92C6F,
      0x4A7484AA, 0x5CB0A9DC, 0x76F988DA, 0x983E5152, 0xA831C66D, 0xB00327C8, 0xBF597FC7,
      0xC6E00BF3, 0xD5A79147, 0x06CA6351, 0x14292967, 0x27B70A85, 0x2E1B2138, 0x4D2C6DFC,
      0x53380D13, 0x650A7354, 0x766A0ABB, 0x81C2C92E, 0x92722C85, 0xA2BFE8A1, 0xA81A664B,
      0xC24B8B70, 0xC76C51A3, 0xD192E819, 0xD6990624, 0xF40E3585, 0x106AA070, 0x19A4C116,
      0x1E376C08, 0x2748774C, 0x34B0BCB5, 0x391C0CB3, 0x4ED8AA4A, 0x5B9CCA4F, 0x682E6FF3,
      0x748F82EE, 0x78A5636F, 0x84C87814, 0x8CC70208, 0x90BEFFFA, 0xA4506CEB, 0xBEF9A3F7,
      0xC67178F2]"

definition sha_H0 :: "u32 list" where
  "sha_H0 =
     [0x6A09E667, 0xBB67AE85, 0x3C6EF372, 0xA54FF53A, 0x510E527F, 0x9B05688C, 0x1F83D9AB,
      0x5BE0CD19]"

definition rotr :: "nat \<Rightarrow> u32 \<Rightarrow> u32" where
  "rotr n x = drop_bit n x OR push_bit (32 - n) x"

definition sha_pad :: "string \<Rightarrow> 8 word list" where
  "sha_pad msg =
     (let l = length msg
      in map (\<lambda>c. of_nat (of_char c)) msg @ [0x80] @ replicate ((119 - l mod 64) mod 64) 0
         @ map (\<lambda>i. ucast (drop_bit (8 * (7 - i)) (of_nat (8 * l) :: 64 word))) [0..<8])"

fun be_words :: "8 word list \<Rightarrow> u32 list" where
  "be_words (a # b # c # d # rest) =
     (push_bit 24 (ucast a) OR push_bit 16 (ucast b) OR push_bit 8 (ucast c) OR ucast d)
     # be_words rest"
| "be_words _ = []"

fun sha_schedule :: "nat \<Rightarrow> u32 list \<Rightarrow> u32 list" where
  "sha_schedule 0 w = w"
| "sha_schedule (Suc k) w =
     (let t = length w;
          w15 = w ! (t - 15); w2 = w ! (t - 2);
          s0 = rotr 7 w15 XOR rotr 18 w15 XOR drop_bit 3 w15;
          s1 = rotr 17 w2 XOR rotr 19 w2 XOR drop_bit 10 w2
      in sha_schedule k (w @ [w ! (t - 16) + s0 + w ! (t - 7) + s1]))"

definition sha_round :: "u32 list \<Rightarrow> u32 \<times> u32 \<Rightarrow> u32 list" where
  "sha_round st kw =
     (case st of
        [a, b, c, d, e, f, g, h] \<Rightarrow>
          let S1 = rotr 6 e XOR rotr 11 e XOR rotr 25 e;
              ch = (e AND f) XOR (NOT e AND g);
              t1 = h + S1 + ch + fst kw + snd kw;
              S0 = rotr 2 a XOR rotr 13 a XOR rotr 22 a;
              maj = (a AND b) XOR (a AND c) XOR (b AND c);
              t2 = S0 + maj
          in [t1 + t2, a, b, c, d + t1, e, f, g]
      | _ \<Rightarrow> st)"

definition sha_block :: "u32 list \<Rightarrow> u32 list \<Rightarrow> u32 list" where
  "sha_block hs blk =
     map2 (+) hs (foldl sha_round hs (zip sha_K (sha_schedule 48 blk)))"

function sha_blocks :: "u32 list \<Rightarrow> u32 list \<Rightarrow> u32 list" where
  "sha_blocks hs ws =
     (if length ws < 16 then hs else sha_blocks (sha_block hs (take 16 ws)) (drop 16 ws))"
  by pat_completeness auto
termination
  by (relation "measure (\<lambda>(hs, ws). length ws)") auto

declare sha_blocks.simps [simp del]

text \<open>\<open>sha256.Sum256\<close>: the 32 bytes of the digest.\<close>

definition Sum256 :: "string \<Rightarrow> 8 word list" where
  "Sum256 msg =
     concat (map (\<lambda>w. map (\<lambda>i. ucast (drop_bit (8 * (3 - i)) w)) [0..<4])
                 (sha_blocks sha_H0 (be_words (sha_pad msg))))"

definition lowerhex :: "nat \<Rightarrow> char" where
  "lowerhex n = ''0123456789abcdef'' ! n"

definition EncodeToString :: "8 word list \<Rightarrow> string" where
  "EncodeToString bs =
     concat (map (\<lambda>b. [lowerhex (unat (drop_bit 4 b)), lowerhex (unat (b AND 0x0F))]) bs)"

section \<open>Frontier (part_013)\<close>

subsection \<open>The priority queue behind \<open>container/heap\<close>\<close>

record pqItem =
  request :: Request
  priority :: go_int
  index :: go_int

type_synonym priorityQueue = "pqItem list"

definition pq_Len :: "priorityQueue \<Rightarrow> nat" where
  "pq_Len pq = length pq"

text \<open>
  The queue is a slice of pointers to items. \<open>Frontier.Push\<close> and \<open>RestoreAll\<close> allocate
  a new item for every request, so no two positions share an item and the slice is a
  list of item values. In \<open>Less\<close>, a lower priority value is a higher priority; nothing
  else is compared.
\<close>

definition pq_Less :: "priorityQueue \<Rightarrow> nat \<Rightarrow> nat \<Rightarrow> bool" where
  "pq_Less pq i j = (priority (pq ! i) <s priority (pq ! j))"

definition pq_Swap :: "priorityQueue \<Rightarrow> nat \<Rightarrow> nat \<Rightarrow> priorityQueue" where
  "pq_Swap pq i j =
     (let a = pq ! i; b = pq ! j
      in pq[i := b\<lparr>index := of_nat i\<rparr>, j := a\<lparr>index := of_nat j\<rparr>])"

definition pq_Push :: "priorityQueue \<Rightarrow> pqItem \<Rightarrow> priorityQueue" where
  "pq_Push pq item = pq @ [item\<lparr>index := of_nat (length pq)\<rparr>]"

text \<open>
  \<open>priorityQueue.Pop\<close> reads \<open>old[n-1]\<close>, which panics on an empty queue: \<open>None\<close>.
\<close>

definition pq_Pop :: "priorityQueue \<Rightarrow> (pqItem \<times> priorityQueue) option" where
  "pq_Pop old =
     (if old = [] then None
      else Some ((last old)\<lparr>index := - 1\<rparr>, butlast old))"

text \<open>
  The functions of Go's \<open>container/heap\<close> that the frontier calls, over the interface
  implemented above: \<open>up\<close>, \<open>down\<close>, \<open>heap.Push\<close> and \<open>heap.Pop\<close>. In \<open>up\<close> the parent
  of \<open>j\<close> is \<open>(j - 1) / 2\<close>, which is \<open>0\<close> for \<open>j = 0\<close> in Go (division truncates) as it is
  on \<open>nat\<close>. \<open>down\<close> returns the queue only: the boolean Go returns is used by neither
  \<open>heap.Push\<close> nor \<open>heap.Pop\<close>; its test \<open>j1 < 0\<close> catches an overflow of \<open>2*i + 1\<close>,
  which an index into a slice cannot cause. \<open>heap.Pop\<close> on an empty queue panics in
  \<open>Swap(0, -1)\<close>: \<open>None\<close>.
\<close>

function up :: "priorityQueue \<Rightarrow> nat \<Rightarrow> priorityQueue" where
  "up h j =
     (let i = (j - 1) div 2
      in if i = j \<or> \<not> pq_Less h j i then h else up (pq_Swap h i j) i)"
  by pat_completeness auto
termination
  by (relation "measure (\<lambda>(h, j). j)") auto

declare up.simps [simp del]

function down :: "priorityQueue \<Rightarrow> nat \<Rightarrow> nat \<Rightarrow> priorityQueue" where
  "down h i n =
     (let j1 = 2 * i + 1
      in if j1 \<ge> n then h
         else let j = (if j1 + 1 < n \<and> pq_Less h (j1 + 1) j1 then j1 + 1 else j1)
              in if \<not> pq_Less h j i then h else down (pq_Swap h i j) j n)"
  by pat_completeness auto
termination
  by (relation "measure (\<lambda>(h, i, n). n - i)") auto

declare down.simps [simp del]

definition heap_Push :: "priorityQueue \<Rightarrow> pqItem \<Rightarrow> priorityQueue" where
  "heap_Push h x = (let h' = pq_Push h x in up h' (pq_Len h' - 1))"

definition heap_Pop :: "priorityQueue \<Rightarrow> (pqItem \<times> priorityQueue) option" where
  "heap_Pop h =
     (if h = [] then None
      else let n = pq_Len h - 1
           in pq_Pop (down (pq_Swap h 0 n) 0 n))"

subsection \<open>The frontier\<close>

text \<open>
  The mutex, the condition variable and the \<open>notEmpty\<close> channel serialise the operations
  and hold no data: each operation is a function from the state before to the state after.
\<close>

record Frontier =
  pq :: priorityQueue
  closed :: bool

definition NewFrontier :: Frontier where
  "NewFrontier = \<lparr>pq = [], closed = False\<rparr>"

definition mk_item :: "Request \<Rightarrow> pqItem" where
  "mk_item req = \<lparr>request = req, priority = Priority req, index = 0\<rparr>"

definition Push :: "Frontier \<Rightarrow> Request \<Rightarrow> Frontier" where
  "Push f req =
     (if closed f then f
      else f\<lparr>pq := heap_Push (pq f) (mk_item req)\<rparr>)"

definition TryPop :: "Frontier \<Rightarrow> Request option \<times> Frontier" where
  "TryPop f =
     (if pq_Len (pq f) = 0 then (None, f)
      else (case heap_Pop (pq f) of
              None \<Rightarrow> (None, f)
            | Some (item, pq') \<Rightarrow> (Some (request item), f\<lparr>pq := pq'\<rparr>)))"

definition Len :: "Frontier \<Rightarrow> nat" where
  "Len f = pq_Len (pq f)"

definition IsEmpty :: "Frontier \<Rightarrow> bool" where
  "IsEmpty f = (Len f = 0)"

definition Close :: "Frontier \<Rightarrow> Frontier" where
  "Close f = f\<lparr>closed := True\<rparr>"

definition IsClosed :: "Frontier \<Rightarrow> bool" where
  "IsClosed f = closed f"

definition Snapshot :: "Frontier \<Rightarrow> Request list" where
  "Snapshot f = map request (pq f)"

text \<open>
  \<open>RestoreAll\<close> pushes every request; it does not read \<open>closed\<close>. \<open>Pop\<close>, which polls
  like \<open>TryPop\<close> until a request or a closed frontier appears, and \<open>Drain\<close> are left out.
\<close>

definition RestoreAll :: "Frontier \<Rightarrow> Request list \<Rightarrow> Frontier" where
  "RestoreAll f reqs = f\<lparr>pq := foldl (\<lambda>h req. heap_Push h (mk_item req)) (pq f) reqs\<rparr>"

text \<open>
  \<open>k\<close> calls of \<open>TryPop\<close> in a row: the requests they return, in order (a call that
  returns nil adds nothing), and the frontier afterwards.
\<close>

fun TryPopN :: "nat \<Rightarrow> Frontier \<Rightarrow> Request list \<times> Frontier" where
  "TryPopN 0 f = ([], f)"
| "TryPopN (Suc k) f =
     (case TryPop f of
        (None, f') \<Rightarrow> TryPopN k f'
      | (Some r, f') \<Rightarrow> (r # fst (TryPopN k f'), snd (TryPopN k f')))"

section \<open>Deduplicator (dedup.go)\<close>

text \<open>
  \<open>CanonicalizeURL\<close>. The parameter \<open>ul\<close> is the Unicode lowering \<open>strings.ToLower\<close>
  applies to a host with non-ASCII bytes. The keys of the query are sorted, then the
  values of each key; \<open>sort.Strings\<close> orders strings byte-wise, as the order on
  \<open>string\<close> here does.
\<close>

definition CanonicalizeURL :: "(string \<Rightarrow> string) \<Rightarrow> string \<Rightarrow> string" where
  "CanonicalizeURL ul rawURL =
     (case Parse rawURL of
        None \<Rightarrow> rawURL
      | Some u0 \<Rightarrow>
          let u1 = u0\<lparr>Scheme := ToLower ul (Scheme u0)\<rparr>;
              u2 = u1\<lparr>Host := ToLower ul (Host u1)\<rparr>;
              u3 = u2\<lparr>Fragment := []\<rparr>;
              host = Hostname u3;
              port = Port u3;
              u4 = (if (Scheme u3 = ''http'' \<and> port = ''80'')
                       \<or> (Scheme u3 = ''https'' \<and> port = ''443'')
                    then u3\<lparr>Host := host\<rparr> else u3);
              u5 = (if RawQuery u4 \<noteq> [] then
                      let params = Query u4;
                          keys = sort (map fst params);
                          sorted =
                            concat (map (\<lambda>k. map (\<lambda>v. QueryEscape k @ ''='' @ QueryEscape v)
                                                 (sort (values_get params k))) keys)
                      in u4\<lparr>RawQuery := Join sorted ''&''\<rparr>
                    else u4);
              u6 = (if Path u5 \<noteq> ''/'' \<and> HasSuffix (Path u5) ''/''
                    then u5\<lparr>Path := TrimRightByte (Path u5) CHR ''/''\<rparr> else u5);
              u7 = (if Path u6 = [] then u6\<lparr>Path := ''/''\<rparr> else u6)
          in URL_String u7)"

definition hashURL :: "string \<Rightarrow> string" where
  "hashURL canonicalURL = EncodeToString (take 16 (Sum256 canonicalURL))"

text \<open>The \<open>seen\<close> map has no values: it is the set of its keys.\<close>

record Deduplicator =
  seen :: "string set"

definition NewDeduplicator :: Deduplicator where
  "NewDeduplicator = \<lparr>seen = {}\<rparr>"

definition IsSeen :: "(string \<Rightarrow> string) \<Rightarrow> Deduplicator \<Rightarrow> string \<Rightarrow> bool" where
  "IsSeen ul d rawURL = (hashURL (CanonicalizeURL ul rawURL) \<in> seen d)"

definition MarkSeen :: "(string \<Rightarrow> string) \<Rightarrow> Deduplicator \<Rightarrow> string \<Rightarrow> Deduplicator" where
  "MarkSeen ul d rawURL = d\<lparr>seen := insert (hashURL (CanonicalizeURL ul rawURL)) (seen d)\<rparr>"

definition Count :: "Deduplicator \<Rightarrow> nat" where
  "Count d = card (seen d)"

definition Reset :: "Deduplicator \<Rightarrow> Deduplicator" where
  "Reset d = d\<lparr>seen := {}\<rparr>"

text \<open>
  \<open>Export\<close> lists the keys in the order Go's map iteration yields them, which Go leaves
  unspecified; the sorted order is one it may yield.
\<close>

definition Export :: "Deduplicator \<Rightarrow> string list" where
  "Export d = sorted_list_of_set (seen d)"

definition Import :: "Deduplicator \<Rightarrow> string list \<Rightarrow> Deduplicator" where
  "Import d hashes = d\<lparr>seen := foldl (\<lambda>m h. insert h m) (seen d) hashes\<rparr>"

text \<open>
  A run of the deduplicator: its operations, applied in order. The observers leave the
  set as it is.
\<close>

datatype dedup_op =
  OpIsSeen string | OpMarkSeen string | OpCount | OpReset | OpExport | OpImport "string list"

fun dedup_step :: "(string \<Rightarrow> string) \<Rightarrow> Deduplicator \<Rightarrow> dedup_op \<Rightarrow> Deduplicator" where
  "dedup_step ul d (OpIsSeen u) = d"
| "dedup_step ul d (OpMarkSeen u) = MarkSeen ul d u"
| "dedup_step ul d OpCount = d"
| "dedup_step ul d OpReset = Reset d"
| "dedup_step ul d OpExport = d"
| "dedup_step ul d (OpImport hashes) = Import d hashes"

definition dedup_run :: "(string \<Rightarrow> string) \<Rightarrow> Deduplicator \<Rightarrow> dedup_op list \<Rightarrow> Deduplicator" where
  "dedup_run ul d ops = foldl (dedup_step ul) d ops"

section \<open>Robots manager (part_011)\<close>

text \<open>
  \<open>robotsData\<close> without \<open>fetchedAt\<close>. The cache maps a domain to a pointer that is nil
  when the fetch failed. \<open>fetchRobotsTxt\<close> is an HTTP exchange: its result for a domain
  is the parameter \<open>fetchRobotsTxt\<close> of the functions below.
\<close>

record robotsData =
  disallowed :: "string list"
  allowed :: "string list"
  crawlDelay :: duration
  sitemaps :: "string list"

record RobotsManager =
  enabled :: bool
  cache :: "string \<rightharpoonup> robotsData option"

definition NewRobotsManager :: "bool \<Rightarrow> RobotsManager" where
  "NewRobotsManager en = \<lparr>enabled = en, cache = Map.empty\<rparr>"

text \<open>\<open>strings.Split\<close> for a separator of one byte.\<close>

fun SplitByte :: "string \<Rightarrow> char \<Rightarrow> string list" where
  "SplitByte [] sep = [[]]"
| "SplitByte (c # s) sep =
     (if c = sep then [] # SplitByte s sep
      else (case SplitByte s sep of
              [] \<Rightarrow> [[c]]
            | p # ps \<Rightarrow> (c # p) # ps))"

text \<open>
  The loop of \<open>matchWildcard\<close> over the parts, from part number \<open>i\<close> and position
  \<open>pos\<close>: \<open>None\<close> when it returns false, the final position otherwise.
\<close>

fun matchWildcard_loop :: "string list \<Rightarrow> nat \<Rightarrow> string \<Rightarrow> nat \<Rightarrow> nat option" where
  "matchWildcard_loop [] i path pos = Some pos"
| "matchWildcard_loop (part # parts) i path pos =
     (if part = [] then matchWildcard_loop parts (i + 1) path pos
      else (case Index (drop pos path) part of
              None \<Rightarrow> None
            | Some idx \<Rightarrow>
                if i = 0 \<and> idx \<noteq> 0 then None
                else matchWildcard_loop parts (i + 1) path (pos + idx + length part)))"

definition matchWildcard :: "string \<Rightarrow> string \<Rightarrow> bool \<Rightarrow> bool" where
  "matchWildcard pattern path mustEnd =
     (case matchWildcard_loop (SplitByte pattern CHR ''*'') 0 path 0 of
        None \<Rightarrow> False
      | Some pos \<Rightarrow> if mustEnd then pos = length path else True)"

definition matchRobotsPattern :: "string \<Rightarrow> string \<Rightarrow> bool" where
  "matchRobotsPattern pattern0 path =
     (if pattern0 = [] then False
      else let endsWithDollar = HasSuffix pattern0 ''$'';
               pattern = (if endsWithDollar then butlast pattern0 else pattern0)
           in if Contains pattern ''*'' then matchWildcard pattern path endsWithDollar
              else if endsWithDollar then path = pattern
              else HasPrefix path pattern)"

definition getRobotsData ::
  "(string \<Rightarrow> robotsData option) \<Rightarrow> RobotsManager \<Rightarrow> string \<Rightarrow> robotsData option \<times> RobotsManager"
where
  "getRobotsData fetchRobotsTxt rm domain =
     (case cache rm domain of
        Some data \<Rightarrow> (data, rm)
      | None \<Rightarrow>
          let data = fetchRobotsTxt domain
          in (data, rm\<lparr>cache := (cache rm)(domain \<mapsto> data)\<rparr>))"

definition IsAllowed ::
  "(string \<Rightarrow> robotsData option) \<Rightarrow> RobotsManager \<Rightarrow> string \<Rightarrow> bool \<times> RobotsManager"
where
  "IsAllowed fetchRobotsTxt rm rawURL =
     (if \<not> enabled rm then (True, rm)
      else (case Parse rawURL of
              None \<Rightarrow> (True, rm)
            | Some u \<Rightarrow>
                (case getRobotsData fetchRobotsTxt rm (Scheme u @ ''://'' @ Host u) of
                   (None, rm') \<Rightarrow> (True, rm')
                 | (Some data, rm') \<Rightarrow>
                     let path = (if Path u = [] then ''/'' else Path u)
                     in if list_ex (\<lambda>pattern. matchRobotsPattern pattern path) (allowed data)
                        then (True, rm')
                        else if list_ex (\<lambda>pattern. matchRobotsPattern pattern path)
                                  (disallowed data)
                        then (False, rm')
                        else (True, rm'))))"

section \<open>Engine (engine.go)\<close>

datatype State = StateIdle | StateRunning | StatePaused | StateStopping | StateStopped

text \<open>The atomic counters of \<open>Stats\<close>: \<open>Add\<close> wraps around as the word addition does.\<close>

record Stats =
  RequestsSent :: "64 word"
  RequestsFailed :: "64 word"
  ResponsesOK :: "64 word"
  ResponsesError :: "64 word"
  ItemsScraped :: "64 word"
  ItemsDropped :: "64 word"
  URLsEnqueued :: "64 word"
  URLsFiltered :: "64 word"
  BytesDownloaded :: "64 word"
  ActiveWorkers :: "32 word"

text \<open>The options of \<open>config.Config\<close> that the functions below read.\<close>

record Config =
  MaxDepth :: go_int
  RespectRobotsTxt :: bool
  AllowedDomains :: "string list"
  DisallowedDomains :: "string list"
  RequestTimeout :: duration
  FetcherTypeDefault :: string

text \<open>\<open>types.Item\<close> without its \<open>Fields\<close> and \<open>Timestamp\<close>.\<close>

record Item =
  ItemURL :: string
  SpiderName :: string
  ItemDepth :: go_int
  Checksum :: string

text \<open>\<open>types.Response\<close>: the fields a fetcher fills in from the exchange.\<close>

record Response =
  StatusCode :: go_int
  RespBody :: string
  RespRequest :: Request
  ContentType :: string
  ContentLength :: "64 word"
  FinalURL :: string

text \<open>
  \<open>types.FetchError\<close>. Its \<open>Err\<close> is the wrapped cause, kept here as what produced it.
\<close>

record net_error =
  is_Canceled :: bool
  is_DeadlineExceeded :: bool
  is_ErrUnexpectedEOF :: bool
  is_EOF :: bool
  net_Timeout :: bool
  op_ECONNRESET :: bool
  op_ECONNREFUSED :: bool

datatype fetch_cause =
  CauseNewRequest | CauseDo net_error | CauseHTTP429 duration string
  | CauseHTTPStatus go_int string | CauseDecompress | CauseRead

record FetchError =
  fe_URL :: string
  fe_StatusCode :: go_int
  fe_Err :: fetch_cause
  Retryable :: bool
  RetryAfter :: duration

text \<open>
  The \<open>error\<close> a \<open>Fetcher\<close> returns: a \<open>*types.FetchError\<close>, or any other error, on which
  the type assertion of \<open>handleFetchError\<close> fails.
\<close>

datatype fetch_failure = IsFetchError FetchError | OtherError

type_synonym Fetcher = "Request \<Rightarrow> fetch_failure + Response"

datatype callback_result = CallbackError | CallbackOK "Item list" "Request list"

text \<open>
  The engine. \<open>callbacks\<close> is a Go map, ranged over in an order Go leaves unspecified:
  here the list of its entries in the order the range visits them. \<open>itemChan\<close> holds the
  items sent so far; \<open>cancelled\<close> says whether \<open>cancel()\<close> of the engine context was
  called; \<open>sched_paused\<close> is the \<open>paused\<close> flag of the scheduler.
\<close>

record Engine =
  cfg :: Config
  frontier :: Frontier
  dedup :: Deduplicator
  robots :: RobotsManager
  fetchers :: "string \<rightharpoonup> Fetcher"
  parser :: "(Response \<Rightarrow> Item list \<times> string list) option"
  callbacks :: "(string \<times> (Response \<Rightarrow> callback_result)) list"
  state :: State
  stats :: Stats
  itemChan :: "Item list"
  cancelled :: bool
  sched_paused :: bool

text \<open>
  What the engine takes from outside: the Unicode lowering of \<open>strings.ToLower\<close>, the
  outcome of fetching a domain's robots.txt, and the clock reading (\<open>UnixNano\<close>, in
  decimal) that \<open>NewRequest\<close> puts into the ID of the \<open>i\<close>-th request it creates.
\<close>

record Environment =
  unicodeLower :: "string \<Rightarrow> string"
  fetchRobotsTxt :: "string \<Rightarrow> robotsData option"
  clock :: "nat \<Rightarrow> string"

definition URLString :: "Request \<Rightarrow> string" where
  "URLString r = (case URL r of None \<Rightarrow> [] | Some u \<Rightarrow> URL_String u)"

definition Domain :: "Request \<Rightarrow> string" where
  "Domain r = (case URL r of None \<Rightarrow> [] | Some u \<Rightarrow> Hostname u)"

definition NewRequest :: "string \<Rightarrow> string \<Rightarrow> Request option" where
  "NewRequest rawURL stamp =
     (case Parse rawURL of
        None \<Rightarrow> None
      | Some u \<Rightarrow>
          Some \<lparr>URL = Some u, Method = ''GET'', Body = [], Depth = 0,
                Priority = PriorityNormal, MaxRetries = 3, RetryCount = 0, Timeout = 0,
                Tag = [], FetcherType = ''http'', ParentURL = [],
                ID = URL_String u @ ''-'' @ stamp\<rparr>)"

text \<open>
  The request \<open>NewRequest\<close> makes for \<open>http://h\<close> followed by the given path (a path
  \<open>NewRequest\<close> leaves as it is), with the given priority and the given clock reading:
  the requests of the examples below.
\<close>

definition request_for :: "string \<Rightarrow> go_int \<Rightarrow> string \<Rightarrow> Request" where
  "request_for path p stamp =
     \<lparr>URL = Some (empty_URL\<lparr>Scheme := ''http'', Host := ''h'', Path := path\<rparr>),
      Method = ''GET'', Body = [], Depth = 0, Priority = p, MaxRetries = 3, RetryCount = 0,
      Timeout = 0, Tag = [], FetcherType = ''http'', ParentURL = [],
      ID = ''http://h'' @ path @ ''-'' @ stamp\<rparr>"

definition isDomainAllowed :: "Config \<Rightarrow> string \<Rightarrow> bool" where
  "isDomainAllowed c domain =
     (if length (AllowedDomains c) > 0 then list_ex (\<lambda>d. d = domain) (AllowedDomains c)
      else \<not> list_ex (\<lambda>d. d = domain) (DisallowedDomains c))"

datatype admission_error =
  ErrMaxDepth | ErrDuplicate | ErrBlocked | ErrDomainNotAllowed string

definition filtered :: "Engine \<Rightarrow> Engine" where
  "filtered e = e\<lparr>stats := (stats e)\<lparr>URLsFiltered := URLsFiltered (stats e) + 1\<rparr>\<rparr>"

text \<open>
  \<open>AddRequest\<close>: the error returned (\<open>None\<close> for nil) and the engine afterwards.
  \<open>robots.IsAllowed\<close> is called only when \<open>RespectRobotsTxt\<close> is set (\<open>&&\<close> does not
  evaluate its right operand otherwise), and it may fill the robots cache.
\<close>

definition AddRequest :: "Environment \<Rightarrow> Engine \<Rightarrow> Request \<Rightarrow> admission_error option \<times> Engine" where
  "AddRequest env e req =
     (let urlStr = URLString req
      in if MaxDepth (cfg e) <s Depth req then (Some ErrMaxDepth, filtered e)
         else if IsSeen (unicodeLower env) (dedup e) urlStr then (Some ErrDuplicate, filtered e)
         else
           let chk = (if RespectRobotsTxt (cfg e)
                      then IsAllowed (fetchRobotsTxt env) (robots e) urlStr
                      else (True, robots e));
               e1 = e\<lparr>robots := snd chk\<rparr>
           in if \<not> fst chk then (Some ErrBlocked, filtered e1)
              else if \<not> isDomainAllowed (cfg e1) (Domain req)
              then (Some (ErrDomainNotAllowed (Domain req)), filtered e1)
              else
                (None,
                 e1\<lparr>dedup := MarkSeen (unicodeLower env) (dedup e1) urlStr,
                    frontier := Push (frontier e1) req,
                    stats := (stats e1)\<lparr>URLsEnqueued := URLsEnqueued (stats e1) + 1\<rparr>\<rparr>))"

text \<open>
  \<open>DefaultConfig\<close> (part_002) and \<open>New\<close>: a fresh engine is idle, its counters are zero,
  and nothing is registered.
\<close>

definition DefaultConfig :: Config where
  "DefaultConfig =
     \<lparr>MaxDepth = 5, RespectRobotsTxt = True, AllowedDomains = [], DisallowedDomains = [],
      RequestTimeout = 30 * 1000000000, FetcherTypeDefault = ''http''\<rparr>"

definition zeroStats :: Stats where
  "zeroStats =
     \<lparr>RequestsSent = 0, RequestsFailed = 0, ResponsesOK = 0, ResponsesError = 0,
      ItemsScraped = 0, ItemsDropped = 0, URLsEnqueued = 0, URLsFiltered = 0,
      BytesDownloaded = 0, ActiveWorkers = 0\<rparr>"

definition New :: "Config \<Rightarrow> Engine" where
  "New c =
     \<lparr>cfg = c, frontier = NewFrontier, dedup = NewDeduplicator,
      robots = NewRobotsManager (RespectRobotsTxt c), fetchers = Map.empty, parser = None,
      callbacks = [], state = StateIdle, stats = zeroStats, itemChan = [],
      cancelled = False, sched_paused = False\<rparr>"

definition SetFetcher :: "Engine \<Rightarrow> string \<Rightarrow> Fetcher \<Rightarrow> Engine" where
  "SetFetcher e fetcherType f = e\<lparr>fetchers := (fetchers e)(fetcherType \<mapsto> f)\<rparr>"

text \<open>
  The lifecycle: each transition is one compare-and-swap on the state cell. \<open>Start\<close>
  returns whether it succeeded; the goroutines it launches are not part of this model.
\<close>

definition Start :: "Engine \<Rightarrow> bool \<times> Engine" where
  "Start e = (if state e = StateIdle then (True, e\<lparr>state := StateRunning\<rparr>) else (False, e))"

definition Stop :: "Engine \<Rightarrow> Engine" where
  "Stop e =
     (if state e \<noteq> StateRunning then e
      else e\<lparr>state := StateStopping, frontier := Close (frontier e), cancelled := True\<rparr>)"

definition Pause :: "Engine \<Rightarrow> Engine" where
  "Pause e =
     (if state e = StateRunning then e\<lparr>state := StatePaused, sched_paused := True\<rparr> else e)"

definition Resume :: "Engine \<Rightarrow> Engine" where
  "Resume e =
     (if state e = StatePaused then e\<lparr>state := StateRunning, sched_paused := False\<rparr> else e)"

section \<open>HTTP fetcher (fetcher/http.go)\<close>

text \<open>
  \<open>isRetryableError\<close> reads the error through \<open>errors.Is\<close>, a type assertion to
  \<open>net.Error\<close> and \<open>errors.As\<close>; \<open>net_error\<close> records the answers of those tests for a
  non-nil error, \<open>None\<close> is nil.
\<close>

definition isRetryableError :: "net_error option \<Rightarrow> bool" where
  "isRetryableError err =
     (case err of
        None \<Rightarrow> False
      | Some x \<Rightarrow>
          if is_Canceled x \<or> is_DeadlineExceeded x then False
          else if is_ErrUnexpectedEOF x \<or> is_EOF x then True
          else if net_Timeout x then True
          else if op_ECONNRESET x \<or> op_ECONNREFUSED x then True
          else False)"

subsection \<open>\<open>strings.TrimSpace\<close> and \<open>strconv.Atoi\<close>\<close>

definition asciiSpace :: "char \<Rightarrow> bool" where
  "asciiSpace c = (c \<in> set [CHR 0x09, CHR 0x0A, CHR 0x0B, CHR 0x0C, CHR 0x0D, CHR 0x20])"

text \<open>
  The UTF-8 encodings of the other code points of Unicode's White_Space: U+0085, U+00A0,
  U+1680, U+2000 to U+200A, U+2028, U+2029, U+202F, U+205F, U+3000.
\<close>

definition unicodeSpaces :: "string list" where
  "unicodeSpaces =
     [[CHR 0xC2, CHR 0x85], [CHR 0xC2, CHR 0xA0], [CHR 0xE1, CHR 0x9A, CHR 0x80],
      [CHR 0xE2, CHR 0x80, CHR 0x80], [CHR 0xE2, CHR 0x80, CHR 0x81],
      [CHR 0xE2, CHR 0x80, CHR 0x82], [CHR 0xE2, CHR 0x80, CHR 0x83],
      [CHR 0xE2, CHR 0x80, CHR 0x84], [CHR 0xE2, CHR 0x80, CHR 0x85],
      [CHR 0xE2, CHR 0x80, CHR 0x86], [CHR 0xE2, CHR 0x80, CHR 0x87],
      [CHR 0xE2, CHR 0x80, CHR 0x88], [CHR 0xE2, CHR 0x80, CHR 0x89],
      [CHR 0xE2, CHR 0x80, CHR 0x8A], [CHR 0xE2, CHR 0x80, CHR 0xA8],
      [CHR 0xE2, CHR 0x80, CHR 0xA9], [CHR 0xE2, CHR 0x80, CHR 0xAF],
      [CHR 0xE2, CHR 0x81, CHR 0x9F], [CHR 0xE3, CHR 0x80, CHR 0x80]]"

text \<open>The number of bytes of the white space a string starts with, or ends with.\<close>

definition leadingSpace :: "string \<Rightarrow> nat" where
  "leadingSpace s =
     (case s of
        [] \<Rightarrow> 0
      | c # _ \<Rightarrow>
          if asciiSpace c then 1
          else (case find (\<lambda>w. HasPrefix s w) unicodeSpaces of
                  Some w \<Rightarrow> length w | None \<Rightarrow> 0))"

definition trailingSpace :: "string \<Rightarrow> nat" where
  "trailingSpace s =
     (if s = [] then 0
      else if asciiSpace (last s) then 1
      else (case find (\<lambda>w. HasSuffix s w) unicodeSpaces of
              Some w \<Rightarrow> length w | None \<Rightarrow> 0))"

function TrimLeftSpace :: "string \<Rightarrow> string" where
  "TrimLeftSpace s =
     (if leadingSpace s = 0 then s else TrimLeftSpace (drop (leadingSpace s) s))"
  by pat_completeness auto

lemma HasPrefix_length: "HasPrefix s p \<Longrightarrow> length p \<le> length s"
  unfolding HasPrefix_def by (metis length_take min.cobounded1)

lemma leadingSpace_le: "leadingSpace s \<le> length s"
proof (cases s)
  case Nil
  then show ?thesis by (simp add: leadingSpace_def)
next
  case (Cons c r)
  show ?thesis
  proof (cases "asciiSpace c")
    case True
    with Cons show ?thesis by (simp add: leadingSpace_def)
  next
    case False
    show ?thesis
    proof (cases "find (\<lambda>w. HasPrefix s w) unicodeSpaces")
      case None
      with Cons False show ?thesis by (simp add: leadingSpace_def)
    next
      case (Some w)
      then have "HasPrefix s w" by (auto simp: find_Some_iff)
      then have "length w \<le> length s" by (rule HasPrefix_length)
      with Cons False Some show ?thesis by (simp add: leadingSpace_def)
    qed
  qed
qed

termination TrimLeftSpace
proof (relation "measure length")
  show "wf (measure length)" by simp
next
  fix s :: string
  assume "leadingSpace s \<noteq> 0"
  moreover have "leadingSpace s \<le> length s" by (rule leadingSpace_le)
  ultimately show "(drop (leadingSpace s) s, s) \<in> measure length" by simp
qed

declare TrimLeftSpace.simps [simp del]

function TrimRightSpace :: "string \<Rightarrow> string" where
  "TrimRightSpace s =
     (if trailingSpace s = 0 then s
      else TrimRightSpace (take (length s - trailingSpace s) s))"
  by pat_completeness auto

lemma trailingSpace_le: "trailingSpace s \<le> length s"
proof (cases "s = []")
  case True
  then show ?thesis by (simp add: trailingSpace_def)
next
  case False
  then have pos: "Suc 0 \<le> length s" by (cases s) simp_all
  show ?thesis
  proof (cases "asciiSpace (last s)")
    case True
    with False pos show ?thesis by (simp add: trailingSpace_def)
  next
    case nsp: False
    show ?thesis
    proof (cases "find (\<lambda>w. HasSuffix s w) unicodeSpaces")
      case None
      with False nsp show ?thesis by (simp add: trailingSpace_def)
    next
      case (Some w)
      then have "HasSuffix s w" by (auto simp: find_Some_iff)
      then have "length w \<le> length s" by (simp add: HasSuffix_def)
      with False nsp Some show ?thesis by (simp add: trailingSpace_def)
    qed
  qed
qed

termination TrimRightSpace
proof (relation "measure length")
  show "wf (measure length)" by simp
next
  fix s :: string
  assume "trailingSpace s \<noteq> 0"
  moreover have "trailingSpace s \<le> length s" by (rule trailingSpace_le)
  ultimately show "(take (length s - trailingSpace s) s, s) \<in> measure length" by simp
qed

declare TrimRightSpace.simps [simp del]

definition TrimSpace :: "string \<Rightarrow> string" where
  "TrimSpace s = TrimRightSpace (TrimLeftSpace s)"

definition isDigit :: "char \<Rightarrow> bool" where
  "isDigit c = inRange CHR ''0'' CHR ''9'' c"

definition digitsValue :: "string \<Rightarrow> int" where
  "digitsValue ds = foldl (\<lambda>n ch. n * 10 + (int (of_char ch) - 48)) 0 ds"

text \<open>
  \<open>strconv.Atoi\<close>: an optional sign and decimal digits, within the range of \<open>int\<close>;
  \<open>None\<close> is a non-nil error (syntax or range).
\<close>

definition Atoi :: "string \<Rightarrow> go_int option" where
  "Atoi s =
     (let neg = HasPrefix s ''-'';
          ds = (if HasPrefix s ''-'' \<or> HasPrefix s ''+'' then tl s else s)
      in if ds = [] \<or> \<not> list_all isDigit ds then None
         else let v = (if neg then - digitsValue ds else digitsValue ds)
              in if v < - (2 ^ 63) \<or> 2 ^ 63 - 1 < v then None else Some (word_of_int v))"

subsection \<open>\<open>parseRetryAfter\<close> and \<open>Fetch\<close>\<close>

definition Second :: duration where
  "Second = 1000000000"

definition Minute :: duration where
  "Minute = 60 * Second"

text \<open>
  \<open>until header\<close> is \<open>time.Until(t)\<close> for the instant \<open>t\<close> that \<open>http.ParseTime(header)\<close>
  returns, at the moment of the call; \<open>None\<close> when \<open>http.ParseTime\<close> fails.
\<close>

definition parseRetryAfter :: "(string \<Rightarrow> duration option) \<Rightarrow> string \<Rightarrow> duration" where
  "parseRetryAfter until header =
     (if header = [] then 5 * Second
      else (case Atoi (TrimSpace header) of
              Some secs \<Rightarrow> (if 120 <s secs then 120 else secs) * Second
            | None \<Rightarrow>
                (case until header of
                   Some d \<Rightarrow>
                     if d <s 0 then Second
                     else if 2 * Minute <s d then 2 * Minute
                     else d
                 | None \<Rightarrow> 5 * Second)))"

text \<open>
  What the HTTP exchange of one \<open>Fetch\<close> yields: \<open>http.NewRequestWithContext\<close> fails, or
  \<open>client.Do\<close> fails with an error, or it returns a response. Of the response:
  the status, the \<open>Retry-After\<close> and \<open>Content-Type\<close> headers, the start of the raw body
  (read into the message of a 429 or 5xx error), what reading the size-limited and
  decompressed body gives, and the final URL.
\<close>

datatype body_result = DecompressFailed | ReadFailed | BodyRead string

record http_response =
  hr_StatusCode :: go_int
  hr_RetryAfter :: string
  hr_ContentType :: string
  hr_raw :: string
  hr_body :: body_result
  hr_FinalURL :: string

datatype round_trip = NewRequestFailed | DoFailed net_error | DoReturned http_response

definition Fetch ::
  "(string \<Rightarrow> duration option) \<Rightarrow> (Request \<Rightarrow> round_trip) \<Rightarrow> Request \<Rightarrow> fetch_failure + Response"
where
  "Fetch until transport req =
     (case transport req of
        NewRequestFailed \<Rightarrow>
          Inl (IsFetchError \<lparr>fe_URL = URLString req, fe_StatusCode = 0,
                 fe_Err = CauseNewRequest, Retryable = False, RetryAfter = 0\<rparr>)
      | DoFailed err \<Rightarrow>
          Inl (IsFetchError \<lparr>fe_URL = URLString req, fe_StatusCode = 0,
                 fe_Err = CauseDo err, Retryable = isRetryableError (Some err),
                 RetryAfter = 0\<rparr>)
      | DoReturned httpResp \<Rightarrow>
          if hr_StatusCode httpResp = 429 then
            Inl (IsFetchError \<lparr>fe_URL = URLString req, fe_StatusCode = hr_StatusCode httpResp,
                   fe_Err = CauseHTTP429 (parseRetryAfter until (hr_RetryAfter httpResp))
                              (take 512 (hr_raw httpResp)),
                   Retryable = True,
                   RetryAfter = parseRetryAfter until (hr_RetryAfter httpResp)\<rparr>)
          else if 500 \<le>s hr_StatusCode httpResp then
            Inl (IsFetchError \<lparr>fe_URL = URLString req, fe_StatusCode = hr_StatusCode httpResp,
                   fe_Err = CauseHTTPStatus (hr_StatusCode httpResp) (take 1024 (hr_raw httpResp)),
                   Retryable = True, RetryAfter = 0\<rparr>)
          else
            (case hr_body httpResp of
               DecompressFailed \<Rightarrow>
                 Inl (IsFetchError \<lparr>fe_URL = URLString req, fe_StatusCode = 0,
                        fe_Err = CauseDecompress, Retryable = False, RetryAfter = 0\<rparr>)
             | ReadFailed \<Rightarrow>
                 Inl (IsFetchError \<lparr>fe_URL = URLString req, fe_StatusCode = 0,
                        fe_Err = CauseRead, Retryable = True, RetryAfter = 0\<rparr>)
             | BodyRead body \<Rightarrow>
                 Inr \<lparr>StatusCode = hr_StatusCode httpResp, RespBody = body,
                       RespRequest = req, ContentType = hr_ContentType httpResp,
                       ContentLength = of_nat (length body),
                       FinalURL = hr_FinalURL httpResp\<rparr>))"

section \<open>Scheduler (scheduler.go)\<close>

text \<open>
  \<open>handleFetchError\<close>. The request is the one the worker holds; the retry writes its
  \<open>RetryCount\<close> and \<open>Priority\<close> and pushes it to the frontier. \<open>time.Sleep\<close> changes
  nothing of the state.
\<close>

definition handleFetchError :: "Engine \<Rightarrow> Request \<Rightarrow> fetch_failure \<Rightarrow> Engine" where
  "handleFetchError e req err =
     (let e1 = e\<lparr>stats := (stats e)\<lparr>RequestsFailed := RequestsFailed (stats e) + 1\<rparr>\<rparr>
      in case err of
           IsFetchError fetchErr \<Rightarrow>
             if Retryable fetchErr \<and> RetryCount req <s MaxRetries req then
               e1\<lparr>frontier :=
                     Push (frontier e1)
                       (req\<lparr>RetryCount := RetryCount req + 1, Priority := PriorityLow\<rparr>)\<rparr>
             else e1\<lparr>stats := (stats e1)\<lparr>ResponsesError := ResponsesError (stats e1) + 1\<rparr>\<rparr>
         | OtherError \<Rightarrow>
             e1\<lparr>stats := (stats e1)\<lparr>ResponsesError := ResponsesError (stats e1) + 1\<rparr>\<rparr>)"

text \<open>The loops of \<open>processRequest\<close> over the items and requests a callback returns.\<close>

definition emitItems :: "Engine \<Rightarrow> Item list \<Rightarrow> Engine" where
  "emitItems e items = e\<lparr>itemChan := itemChan e @ items\<rparr>"

fun admitAll :: "Environment \<Rightarrow> Engine \<Rightarrow> Request list \<Rightarrow> Engine" where
  "admitAll env e [] = e"
| "admitAll env e (r # rs) = admitAll env (snd (AddRequest env e r)) rs"

fun runCallbacks ::
  "Environment \<Rightarrow> Engine \<Rightarrow> Request \<Rightarrow> Response
     \<Rightarrow> (string \<times> (Response \<Rightarrow> callback_result)) list \<Rightarrow> Engine"
where
  "runCallbacks env e req resp [] = e"
| "runCallbacks env e req resp ((cbName, cb) # cbs) =
     (case cb resp of
        CallbackError \<Rightarrow> runCallbacks env e req resp cbs
      | CallbackOK items newReqs \<Rightarrow>
          let e1 = emitItems e
                     (map (\<lambda>item. item\<lparr>SpiderName := cbName, ItemDepth := Depth req\<rparr>) items);
              e2 = admitAll env e1
                     (map (\<lambda>r. r\<lparr>Depth := Depth req + 1, ParentURL := URLString req\<rparr>) newReqs)
          in runCallbacks env e2 req resp cbs)"

text \<open>
  The requests made from the links the parser found: the \<open>i\<close>-th link is stamped with
  \<open>clock env i\<close>; a link that does not parse is skipped.
\<close>

fun linkRequests :: "Environment \<Rightarrow> Request \<Rightarrow> nat \<Rightarrow> string list \<Rightarrow> Request list" where
  "linkRequests env req i [] = []"
| "linkRequests env req i (link # links) =
     (case NewRequest link (clock env i) of
        None \<Rightarrow> linkRequests env req (i + 1) links
      | Some newReq \<Rightarrow>
          newReq\<lparr>Depth := Depth req + 1, ParentURL := URLString req\<rparr>
          # linkRequests env req (i + 1) links)"

definition processRequest :: "Environment \<Rightarrow> Engine \<Rightarrow> Request \<Rightarrow> Engine" where
  "processRequest env e req =
     (let fetcherType = (if FetcherType req = [] then FetcherTypeDefault (cfg e)
                         else FetcherType req)
      in case fetchers e fetcherType of
           None \<Rightarrow> e\<lparr>stats := (stats e)\<lparr>RequestsFailed := RequestsFailed (stats e) + 1\<rparr>\<rparr>
         | Some fetcher \<Rightarrow>
             let e1 = e\<lparr>stats := (stats e)\<lparr>RequestsSent := RequestsSent (stats e) + 1\<rparr>\<rparr>
             in case fetcher req of
                  Inl err \<Rightarrow> handleFetchError e1 req err
                | Inr resp \<Rightarrow>
                    let e2 = e1\<lparr>stats := (stats e1)
                               \<lparr>ResponsesOK := ResponsesOK (stats e1) + 1,
                                BytesDownloaded :=
                                  BytesDownloaded (stats e1) + ContentLength resp\<rparr>\<rparr>;
                        e3 = runCallbacks env e2 req resp (callbacks e2)
                    in case parser e3 of
                         None \<Rightarrow> e3
                       | Some p \<Rightarrow>
                           let e4 = (if length (callbacks e2) = 0
                                     then emitItems e3
                                            (map (\<lambda>item. item\<lparr>ItemDepth := Depth req\<rparr>)
                                                 (fst (p resp)))
                                     else e3)
                           in admitAll env e4 (linkRequests env req 0 (snd (p resp))))"

section \<open>Values for the examples\<close>

text \<open>
  An environment in which no robots.txt can be fetched and strings are ASCII, and a
  retryable fetch error as \<open>Fetch\<close> builds it for a 503 response.
\<close>

definition no_robots_env :: Environment where
  "no_robots_env = \<lparr>unicodeLower = (\<lambda>s. s), fetchRobotsTxt = (\<lambda>d. None), clock = (\<lambda>i. [])\<rparr>"

definition unavailable_503 :: FetchError where
  "unavailable_503 = \<lparr>fe_URL = ''http://h/a'', fe_StatusCode = 503, fe_Err = CauseHTTPStatus 503 [],
            Retryable = True, RetryAfter = 0\<rparr>"

text \<open>
  The error of a \<open>client.Do\<close> whose context was cancelled (a \<open>*url.Error\<close> around
  \<open>context.Canceled\<close>), and a 404 response whose body reads without error.
\<close>

definition cancelled_error :: net_error where
  "cancelled_error =
     \<lparr>is_Canceled = True, is_DeadlineExceeded = False, is_ErrUnexpectedEOF = False,
      is_EOF = False, net_Timeout = False, op_ECONNRESET = False, op_ECONNREFUSED = False\<rparr>"

definition not_found_404 :: http_response where
  "not_found_404 =
     \<lparr>hr_StatusCode = 404, hr_RetryAfter = [], hr_ContentType = ''text/html'',
      hr_raw = ''not found'', hr_body = BodyRead ''not found'', hr_FinalURL = ''http://h/a''\<rparr>"

text \<open>
  The counters of \<open>Stats\<close> that admission never writes, for the proofs about
  \<open>processRequest\<close>.
\<close>

definition core_counters :: "Stats \<Rightarrow> 64 word \<times> 64 word \<times> 64 word \<times> 64 word \<times> 64 word" where
  "core_counters st =
     (RequestsSent st, RequestsFailed st, ResponsesOK st, ResponsesError st, BytesDownloaded st)"

section \<open>Notions of the proofs about the frontier\<close>

text \<open>
  \<open>key\<close> is what \<open>Less\<close> compares; \<open>entry\<close> is an item without its \<open>index\<close>, which
  \<open>Swap\<close> rewrites, and \<open>entries\<close> the items of a queue so read. \<open>heap_upto h n\<close> says
  that the first \<open>n\<close> items form a binary min-heap on \<open>key\<close>; \<open>up_inv\<close> and \<open>down_inv\<close>
  are the heap property with one position still out of place, as \<open>up\<close> and \<open>down\<close> find
  it. A queue is \<open>consistent\<close> when every item carries the priority of its request, as
  the items \<open>Push\<close> and \<open>RestoreAll\<close> make do.
\<close>

definition key :: "pqItem \<Rightarrow> int" where
  "key x = sint (priority x)"

definition entry :: "pqItem \<Rightarrow> Request \<times> go_int" where
  "entry x = (request x, priority x)"

definition heap_upto :: "priorityQueue \<Rightarrow> nat \<Rightarrow> bool" where
  "heap_upto h n = (\<forall>k. 0 < k \<and> k < n \<longrightarrow> key (h ! ((k - 1) div 2)) \<le> key (h ! k))"

definition up_inv :: "priorityQueue \<Rightarrow> nat \<Rightarrow> nat \<Rightarrow> bool" where
  "up_inv h n j =
     ((\<forall>k. 0 < k \<and> k < n \<and> k \<noteq> j \<longrightarrow> key (h ! ((k - 1) div 2)) \<le> key (h ! k))
      \<and> (\<forall>k. 0 < k \<and> k < n \<and> (k - 1) div 2 = j \<and> 0 < j \<longrightarrow>
             key (h ! ((j - 1) div 2)) \<le> key (h ! k)))"

definition down_inv :: "priorityQueue \<Rightarrow> nat \<Rightarrow> nat \<Rightarrow> bool" where
  "down_inv h n i =
     ((\<forall>k. 0 < k \<and> k < n \<and> (k - 1) div 2 \<noteq> i \<longrightarrow> key (h ! ((k - 1) div 2)) \<le> key (h ! k))
      \<and> (\<forall>k. 0 < k \<and> k < n \<and> (k - 1) div 2 = i \<and> 0 < i \<longrightarrow>
             key (h ! ((i - 1) div 2)) \<le> key (h ! k)))"

definition entries :: "priorityQueue \<Rightarrow> (Request \<times> go_int) multiset" where
  "entries h = mset (map entry h)"

definition consistent :: "priorityQueue \<Rightarrow> bool" where
  "consistent h = (\<forall>e \<in># entries h. snd e = Priority (fst e))"

definition frontier_inv :: "Frontier \<Rightarrow> bool" where
  "frontier_inv f = (heap_upto (pq f) (length (pq f)) \<and> consistent (pq f))"

definition prio :: "Request \<Rightarrow> int" where
  "prio r = sint (Priority r)"

section \<open>The scheme of a parsed URL is ASCII\<close>

text \<open>
  \<open>parse\<close> lowers the scheme byte by byte. That is what \<open>strings.ToLower\<close> does to it,
  whatever the Unicode tables say: a scheme has ASCII bytes only.
\<close>

lemma inRange_ascii:
  "inRange CHR ''a'' CHR ''z'' c \<or> inRange CHR ''A'' CHR ''Z'' c \<or> inRange CHR ''0'' CHR ''9'' c
     \<or> c \<in> set ''+-.'' \<Longrightarrow> c < CHR 0x80"
  by (auto simp: inRange_def less_eq_char_def less_char_def)

lemma getScheme_from_ascii:
  "\<forall>k < i. rawURL ! k < CHR 0x80 \<Longrightarrow> getScheme_from rawURL i = Some (scheme, rest) \<Longrightarrow>
     list_all (\<lambda>c. c < CHR 0x80) scheme"
proof (induction rawURL i rule: getScheme_from.induct)
  case (1 rawURL i)
  show ?case
  proof (cases "i \<ge> length rawURL")
    case True
    then have "scheme = []" using "1.prems"(2) by (simp add: getScheme_from.simps [of rawURL i])
    then show ?thesis by simp
  next
    case False
    define c where "c = rawURL ! i"
    have unf: "getScheme_from rawURL i =
       (if inRange CHR ''a'' CHR ''z'' c \<or> inRange CHR ''A'' CHR ''Z'' c
        then getScheme_from rawURL (i + 1)
        else if inRange CHR ''0'' CHR ''9'' c \<or> c \<in> set ''+-.''
        then (if i = 0 then Some ([], rawURL) else getScheme_from rawURL (i + 1))
        else if c = CHR '':''
        then (if i = 0 then None else Some (take i rawURL, drop (i + 1) rawURL))
        else Some ([], rawURL))"
      using False unfolding c_def by (simp add: getScheme_from.simps [of rawURL i] Let_def)
    note p2 = "1.prems"(2) [unfolded unf]
    consider (letter) "inRange CHR ''a'' CHR ''z'' c \<or> inRange CHR ''A'' CHR ''Z'' c"
      | (digit) "\<not> (inRange CHR ''a'' CHR ''z'' c \<or> inRange CHR ''A'' CHR ''Z'' c)"
          "inRange CHR ''0'' CHR ''9'' c \<or> c \<in> set ''+-.''"
      | (colon) "\<not> (inRange CHR ''a'' CHR ''z'' c \<or> inRange CHR ''A'' CHR ''Z'' c)"
          "\<not> (inRange CHR ''0'' CHR ''9'' c \<or> c \<in> set ''+-.'')" "c = CHR '':''"
      | (other) "\<not> (inRange CHR ''a'' CHR ''z'' c \<or> inRange CHR ''A'' CHR ''Z'' c)"
          "\<not> (inRange CHR ''0'' CHR ''9'' c \<or> c \<in> set ''+-.'')" "c \<noteq> CHR '':''"
      by blast
    then show ?thesis
    proof cases
      case letter
      then have asc: "c < CHR 0x80" using inRange_ascii [of c] by blast
      have next_eq: "getScheme_from rawURL (i + 1) = Some (scheme, rest)"
        using p2 letter by simp
      have "\<forall>k < i + 1. rawURL ! k < CHR 0x80"
        using "1.prems"(1) asc by (auto simp: c_def less_Suc_eq)
      then show ?thesis
        using "1.IH"(1) [OF False c_def letter _ next_eq] by simp
    next
      case digit
      then have asc: "c < CHR 0x80" using inRange_ascii [of c] by blast
      show ?thesis
      proof (cases "i = 0")
        case True
        then have "scheme = []"
          using p2 digit by simp
        then show ?thesis by simp
      next
        case i0: False
        have next_eq: "getScheme_from rawURL (i + 1) = Some (scheme, rest)"
          using p2 digit i0 by simp
        have "\<forall>k < i + 1. rawURL ! k < CHR 0x80"
          using "1.prems"(1) asc by (auto simp: c_def less_Suc_eq)
        then show ?thesis
          using "1.IH"(2) [OF False c_def digit(1) digit(2) i0 _ next_eq] by simp
      qed
    next
      case colon
      show ?thesis
      proof (cases "i = 0")
        case True
        then show ?thesis
          using p2 colon by simp
      next
        case i0: False
        then have "scheme = take i rawURL"
          using p2 colon by simp
        then show ?thesis using "1.prems"(1) False by (auto simp: list_all_length)
      qed
    next
      case other
      then have "scheme = []"
        using p2 other by simp
      then show ?thesis by simp
    qed
  qed
qed

lemma getScheme_ToLower:
  "getScheme rawURL = Some (scheme, rest) \<Longrightarrow> ToLower ul scheme = map lower_byte scheme"
  using getScheme_from_ascii [of 0 rawURL scheme rest] by (simp add: getScheme_def ToLower_def)

section \<open>Frontier: lengths\<close>

lemma length_pq_Swap [simp]: "length (pq_Swap h i j) = length h"
  by (simp add: pq_Swap_def Let_def)

lemma length_up [simp]: "length (up h j) = length h"
proof (induction h j rule: up.induct)
  case (1 h j)
  show ?case
  proof (cases "(j - 1) div 2 = j \<or> \<not> pq_Less h j ((j - 1) div 2)")
    case True
    then show ?thesis by (subst up.simps) (simp add: Let_def)
  next
    case False
    then have "length (up (pq_Swap h ((j - 1) div 2) j) ((j - 1) div 2)) = length h"
      using "1.IH" [of "(j - 1) div 2"] by simp
    with False show ?thesis by (subst up.simps) (simp add: Let_def)
  qed
qed

lemma length_heap_Push [simp]: "length (heap_Push h x) = Suc (length h)"
  by (simp add: heap_Push_def pq_Push_def pq_Len_def Let_def)

lemma length_foldl_heap_Push:
  "length (foldl (\<lambda>h req. heap_Push h (mk_item req)) h reqs) = length h + length reqs"
  by (induction reqs arbitrary: h) simp_all

section \<open>Frontier: the heap invariant\<close>

lemma pq_Less_key: "pq_Less h i j = (key (h ! i) < key (h ! j))"
  by (simp add: pq_Less_def key_def word_sless_alt)

lemma nth_pq_Swap:
  "i < length h \<Longrightarrow> j < length h \<Longrightarrow> k < length h \<Longrightarrow>
     entry (pq_Swap h i j ! k) = (if k = j then entry (h ! i) else if k = i then entry (h ! j) else entry (h ! k))"
  by (simp add: pq_Swap_def Let_def entry_def nth_list_update)

lemma key_entry: "key x = sint (snd (entry x))"
  by (simp add: key_def entry_def)

lemma key_pq_Swap:
  "i < length h \<Longrightarrow> j < length h \<Longrightarrow> k < length h \<Longrightarrow>
     key (pq_Swap h i j ! k) = (if k = j then key (h ! i) else if k = i then key (h ! j) else key (h ! k))"
  by (simp add: key_entry nth_pq_Swap)

lemma entries_pq_Swap:
  "i < length h \<Longrightarrow> j < length h \<Longrightarrow> mset (map entry (pq_Swap h i j)) = mset (map entry h)"
proof -
  assume ij: "i < length h" "j < length h"
  have eq1: "map entry (pq_Swap h i j) = (map entry h)[i := map entry h ! j, j := map entry h ! i]"
    using ij by (simp add: pq_Swap_def Let_def map_update entry_def)
  have eq2: "mset ((map entry h)[i := map entry h ! j, j := map entry h ! i]) = mset (map entry h)"
    by (rule mset_swap) (simp_all add: ij)
  show ?thesis by (simp only: eq1 eq2)
qed

lemma up_step_inv:
  assumes inv: "up_inv h n j" and n: "n \<le> length h" and j: "j < n" and j0: "(j - 1) div 2 \<noteq> j"
    and less: "key (h ! j) < key (h ! ((j - 1) div 2))"
  shows "up_inv (pq_Swap h ((j - 1) div 2) j) n ((j - 1) div 2)"
proof -
  define i where "i = (j - 1) div 2"
  have jpos: "0 < j" using j0 by (cases j) auto
  have ij: "i < j" unfolding i_def using jpos by arith
  have il: "i < length h" and jl: "j < length h" using ij j n by auto
  have A: "\<And>k. 0 < k \<Longrightarrow> k < n \<Longrightarrow> k \<noteq> j \<Longrightarrow> key (h ! ((k - 1) div 2)) \<le> key (h ! k)"
    using inv by (simp add: up_inv_def)
  have B: "\<And>k. 0 < k \<Longrightarrow> k < n \<Longrightarrow> (k - 1) div 2 = j \<Longrightarrow> key (h ! i) \<le> key (h ! k)"
    using inv jpos by (simp add: up_inv_def i_def)
  have K: "\<And>k. k < n \<Longrightarrow> key (pq_Swap h i j ! k) = (if k = j then key (h ! i) else if k = i then key (h ! j) else key (h ! k))"
    using il jl n by (simp add: key_pq_Swap)
  have par: "\<And>k. 0 < k \<Longrightarrow> k < n \<Longrightarrow> (k - 1) div 2 < n" by arith
  show ?thesis
    unfolding up_inv_def i_def [symmetric]
  proof (intro conjI allI impI)
    fix k assume k: "0 < k \<and> k < n \<and> k \<noteq> i"
    then have kp: "(k - 1) div 2 < n" using par by simp
    have pk: "(k - 1) div 2 < k" using k by arith
    show "key (pq_Swap h i j ! ((k - 1) div 2)) \<le> key (pq_Swap h i j ! k)"
    proof (cases "k = j")
      case True
      then show ?thesis using k kp less K by (simp add: i_def)
    next
      case False
      note kj = False
      show ?thesis
      proof (cases "(k - 1) div 2 = i")
        case True
        have "key (h ! i) \<le> key (h ! k)" using A [of k] k kj True by simp
        then show ?thesis using k kj True K [of k] K [of i] ij j less by (simp add: i_def)
      next
        case False
        show ?thesis
        proof (cases "(k - 1) div 2 = j")
          case True
          then show ?thesis using B [of k] k kj K [of k] K [of j] j by simp
        next
          case pj: False
          then show ?thesis using A [of k] k kj False K [of k] K [of "(k - 1) div 2"] kp by simp
        qed
      qed
    qed
  next
    fix k assume k: "0 < k \<and> k < n \<and> (k - 1) div 2 = i \<and> 0 < i"
    have pi: "(i - 1) div 2 < i" using k by arith
    then have pin: "(i - 1) div 2 < n" using ij j by arith
    have pi_i: "key (h ! ((i - 1) div 2)) \<le> key (h ! i)" using A [of i] k ij j by simp
    have kne: "k \<noteq> i" using k by arith
    have kpar: "(i - 1) div 2 \<noteq> j" "(i - 1) div 2 \<noteq> i" using pi ij by auto
    show "key (pq_Swap h i j ! ((i - 1) div 2)) \<le> key (pq_Swap h i j ! k)"
    proof (cases "k = j")
      case True
      then show ?thesis using K [of j] K [of "(i - 1) div 2"] pin j kpar pi_i by simp
    next
      case False
      have "key (h ! i) \<le> key (h ! k)" using A [of k] k False by simp
      then show ?thesis using K [of k] K [of "(i - 1) div 2"] pin k kne False kpar pi_i by simp
    qed
  qed
qed

lemma up_heap:
  "up_inv h n j \<Longrightarrow> n \<le> length h \<Longrightarrow> j < n \<Longrightarrow> heap_upto (up h j) n"
proof (induction h j rule: up.induct)
  case (1 h j)
  show ?case
  proof (cases "(j - 1) div 2 = j \<or> \<not> pq_Less h j ((j - 1) div 2)")
    case True
    then have u: "up h j = h" by (subst up.simps) (simp add: Let_def)
    have "heap_upto h n"
      unfolding heap_upto_def
    proof (intro allI impI)
      fix k assume k: "0 < k \<and> k < n"
      show "key (h ! ((k - 1) div 2)) \<le> key (h ! k)"
      proof (cases "k = j")
        case kj: True
        then have "(j - 1) div 2 \<noteq> j" using k by arith
        then show ?thesis using True kj by (simp add: pq_Less_key)
      next
        case False
        then show ?thesis using "1.prems"(1) k by (simp add: up_inv_def)
      qed
    qed
    with u show ?thesis by simp
  next
    case False
    then have u: "up h j = up (pq_Swap h ((j - 1) div 2) j) ((j - 1) div 2)"
      by (subst up.simps) (simp add: Let_def)
    have less: "key (h ! j) < key (h ! ((j - 1) div 2))" using False by (simp add: pq_Less_key)
    have inv': "up_inv (pq_Swap h ((j - 1) div 2) j) n ((j - 1) div 2)"
      using up_step_inv [OF "1.prems"(1) "1.prems"(2) "1.prems"(3)] False less by simp
    have "heap_upto (up (pq_Swap h ((j - 1) div 2) j) ((j - 1) div 2)) n"
      using "1.IH" [OF refl _ inv'] False "1.prems" by simp
    with u show ?thesis by simp
  qed
qed


lemma down_step_inv:
  assumes inv: "down_inv h n i" and n: "n \<le> length h" and j: "j < n"
    and child: "j = 2 * i + 1 \<or> j = 2 * i + 2"
    and minc: "\<And>k. k < n \<Longrightarrow> (k = 2 * i + 1 \<or> k = 2 * i + 2) \<Longrightarrow> key (h ! j) \<le> key (h ! k)"
    and less: "key (h ! j) < key (h ! i)"
  shows "down_inv (pq_Swap h i j) n j"
proof -
  have ij: "i < j" using child by arith
  have pj: "(j - 1) div 2 = i" using child by arith
  have il: "i < length h" and jl: "j < length h" using ij j n by auto
  have A: "\<And>k. 0 < k \<Longrightarrow> k < n \<Longrightarrow> (k - 1) div 2 \<noteq> i \<Longrightarrow> key (h ! ((k - 1) div 2)) \<le> key (h ! k)"
    using inv by (simp add: down_inv_def)
  have B: "\<And>k. 0 < k \<Longrightarrow> k < n \<Longrightarrow> (k - 1) div 2 = i \<Longrightarrow> 0 < i \<Longrightarrow> key (h ! ((i - 1) div 2)) \<le> key (h ! k)"
    using inv by (simp add: down_inv_def)
  have K: "\<And>k. k < n \<Longrightarrow> key (pq_Swap h i j ! k) = (if k = j then key (h ! i) else if k = i then key (h ! j) else key (h ! k))"
    using il jl n by (simp add: key_pq_Swap)
  show ?thesis
    unfolding down_inv_def
  proof (intro conjI allI impI)
    fix k assume k: "0 < k \<and> k < n \<and> (k - 1) div 2 \<noteq> j"
    have kp: "(k - 1) div 2 < n" using k by arith
    have pk: "(k - 1) div 2 < k" using k by arith
    show "key (pq_Swap h i j ! ((k - 1) div 2)) \<le> key (pq_Swap h i j ! k)"
    proof (cases "(k - 1) div 2 = i")
      case True
      then have kc: "k = 2 * i + 1 \<or> k = 2 * i + 2" using k by arith
      have ki: "k \<noteq> i" using True pk by simp
      show ?thesis
      proof (cases "k = j")
        case kj: True
        then show ?thesis using K [of j] K [of i] True j ij less by simp
      next
        case False
        then show ?thesis using K [of k] K [of i] True k ki ij j minc [of k] kc by simp
      qed
    next
      case False
      note npi = False
      show ?thesis
      proof (cases "k = i")
        case True
        then have ipos: "0 < i" using k by simp
        have "(i - 1) div 2 \<noteq> i" "(i - 1) div 2 \<noteq> j" using ipos ij by arith+
        moreover have "key (h ! ((i - 1) div 2)) \<le> key (h ! j)" using B [of j] j pj ipos ij by simp
        ultimately show ?thesis using True K [of i] K [of "(i - 1) div 2"] kp ij j by simp
      next
        case False
        have "k \<noteq> j" using npi pj by auto
        then show ?thesis using A [of k] k npi False K [of k] K [of "(k - 1) div 2"] kp by simp
      qed
    qed
  next
    fix k assume k: "0 < k \<and> k < n \<and> (k - 1) div 2 = j \<and> 0 < j"
    have "j < k" using k by arith
    then have kne: "k \<noteq> i" "k \<noteq> j" using ij by auto
    have "(k - 1) div 2 \<noteq> i" using k ij by simp
    then have "key (h ! j) \<le> key (h ! k)" using A [of k] k by simp
    then show "key (pq_Swap h i j ! ((j - 1) div 2)) \<le> key (pq_Swap h i j ! k)"
      using K [of k] K [of i] pj k kne ij j by simp
  qed
qed

lemma down_heap:
  "down_inv h n i \<Longrightarrow> n \<le> length h \<Longrightarrow> heap_upto (down h i n) n"
proof (induction h i n rule: down.induct)
  case (1 h i n)
  show ?case
  proof (cases "2 * i + 1 \<ge> n")
    case True
    then have d: "down h i n = h" by (subst down.simps) (simp add: Let_def)
    have "heap_upto h n"
      unfolding heap_upto_def
    proof (intro allI impI)
      fix k assume k: "0 < k \<and> k < n"
      then have "(k - 1) div 2 \<noteq> i" using True by arith
      then show "key (h ! ((k - 1) div 2)) \<le> key (h ! k)"
        using "1.prems"(1) k by (simp add: down_inv_def)
    qed
    with d show ?thesis by simp
  next
    case False
    define j where "j = (if 2 * i + 1 + 1 < n \<and> pq_Less h (2 * i + 1 + 1) (2 * i + 1) then 2 * i + 1 + 1 else 2 * i + 1)"
    have jn: "j < n" using False by (simp add: j_def)
    have child: "j = 2 * i + 1 \<or> j = 2 * i + 2" by (simp add: j_def)
    have minc: "key (h ! j) \<le> key (h ! k)" if "k < n" "k = 2 * i + 1 \<or> k = 2 * i + 2" for k
      using that by (auto simp: j_def pq_Less_key)
    have dd: "down h i n = (if \<not> pq_Less h j i then h else down (pq_Swap h i j) j n)"
      unfolding j_def using False by (simp add: down.simps [of h i n] Let_def)
    show ?thesis
    proof (cases "pq_Less h j i")
      case nl: False
      then have d: "down h i n = h" using dd by simp
      have "heap_upto h n"
        unfolding heap_upto_def
      proof (intro allI impI)
        fix k assume k: "0 < k \<and> k < n"
        show "key (h ! ((k - 1) div 2)) \<le> key (h ! k)"
        proof (cases "(k - 1) div 2 = i")
          case True
          then have "k = 2 * i + 1 \<or> k = 2 * i + 2" using k by arith
          then have "key (h ! j) \<le> key (h ! k)" using minc k by simp
          moreover have "key (h ! i) \<le> key (h ! j)" using nl by (simp add: pq_Less_key)
          ultimately show ?thesis using True by simp
        next
          case False
          then show ?thesis using "1.prems"(1) k by (simp add: down_inv_def)
        qed
      qed
      with d show ?thesis by simp
    next
      case True
      then have d: "down h i n = down (pq_Swap h i j) j n" using dd by simp
      have less: "key (h ! j) < key (h ! i)" using True by (simp add: pq_Less_key)
      have inv': "down_inv (pq_Swap h i j) n j"
        using down_step_inv [OF "1.prems"(1) "1.prems"(2) jn child _ less] minc by simp
      have "heap_upto (down (pq_Swap h i j) j n) n"
        using "1.IH" [OF refl _ j_def _ inv'] False True "1.prems" by simp
      with d show ?thesis by simp
    qed
  qed
qed


lemma length_down [simp]: "length (down h i n) = length h"
proof (induction h i n rule: down.induct)
  case (1 h i n)
  define j where "j = (if 2 * i + 1 + 1 < n \<and> pq_Less h (2 * i + 1 + 1) (2 * i + 1) then 2 * i + 1 + 1 else 2 * i + 1)"
  show ?case
  proof (cases "2 * i + 1 \<ge> n \<or> \<not> pq_Less h j i")
    case True
    then have "down h i n = h"
      unfolding j_def by (auto simp: down.simps [of h i n] Let_def)
    then show ?thesis by simp
  next
    case False
    then have d: "down h i n = down (pq_Swap h i j) j n"
      unfolding j_def by (auto simp: down.simps [of h i n] Let_def)
    have "length (down (pq_Swap h i j) j n) = length h"
      using "1.IH" [OF refl _ j_def] False by simp
    with d show ?thesis by simp
  qed
qed

lemma entries_up: "j < length h \<Longrightarrow> mset (map entry (up h j)) = mset (map entry h)"
proof (induction h j rule: up.induct)
  case (1 h j)
  show ?case
  proof (cases "(j - 1) div 2 = j \<or> \<not> pq_Less h j ((j - 1) div 2)")
    case True
    then have "up h j = h" by (simp add: up.simps [of h j] Let_def)
    then show ?thesis by simp
  next
    case False
    then have u: "up h j = up (pq_Swap h ((j - 1) div 2) j) ((j - 1) div 2)"
      by (simp add: up.simps [of h j] Let_def)
    have lt: "(j - 1) div 2 < length h" using "1.prems" by arith
    have "mset (map entry (up (pq_Swap h ((j - 1) div 2) j) ((j - 1) div 2)))
          = mset (map entry (pq_Swap h ((j - 1) div 2) j))"
      using "1.IH" [OF refl] False lt by simp
    then show ?thesis using u entries_pq_Swap [OF lt "1.prems"] by simp
  qed
qed

lemma down_facts:
  "n \<le> length h \<Longrightarrow>
     mset (map entry (down h i n)) = mset (map entry h)
     \<and> (\<forall>k. n \<le> k \<longrightarrow> down h i n ! k = h ! k)"
proof (induction h i n rule: down.induct)
  case (1 h i n)
  define j where "j = (if 2 * i + 1 + 1 < n \<and> pq_Less h (2 * i + 1 + 1) (2 * i + 1) then 2 * i + 1 + 1 else 2 * i + 1)"
  show ?case
  proof (cases "2 * i + 1 \<ge> n \<or> \<not> pq_Less h j i")
    case True
    then have "down h i n = h"
      unfolding j_def by (auto simp: down.simps [of h i n] Let_def)
    then show ?thesis by simp
  next
    case False
    then have d: "down h i n = down (pq_Swap h i j) j n"
      unfolding j_def by (auto simp: down.simps [of h i n] Let_def)
    have jn: "j < n" using False by (auto simp: j_def)
    have ij: "i < j" by (simp add: j_def)
    have il: "i < length h" and jl: "j < length h" using jn ij "1.prems" by auto
    have IH: "mset (map entry (down (pq_Swap h i j) j n)) = mset (map entry (pq_Swap h i j))
              \<and> (\<forall>k. n \<le> k \<longrightarrow> down (pq_Swap h i j) j n ! k = pq_Swap h i j ! k)"
      using "1.IH" [OF refl _ j_def] False "1.prems" by simp
    have "\<And>k. n \<le> k \<Longrightarrow> pq_Swap h i j ! k = h ! k"
      using jn ij by (simp add: pq_Swap_def Let_def)
    then show ?thesis using d IH entries_pq_Swap [OF il jl] by simp
  qed
qed

lemma root_min: "heap_upto h n \<Longrightarrow> k < n \<Longrightarrow> key (h ! 0) \<le> key (h ! k)"
proof (induction k rule: less_induct)
  case (less k)
  show ?case
  proof (cases "k = 0")
    case True
    then show ?thesis by simp
  next
    case False
    then have p: "(k - 1) div 2 < k" by arith
    have "key (h ! 0) \<le> key (h ! ((k - 1) div 2))"
      using less.IH [OF p less.prems(1)] p less.prems(2) by simp
    moreover have "key (h ! ((k - 1) div 2)) \<le> key (h ! k)"
      using less.prems False by (simp add: heap_upto_def)
    ultimately show ?thesis by simp
  qed
qed

lemma heap_Push_heap:
  assumes "heap_upto h (length h)"
  shows "heap_upto (heap_Push h x) (length (heap_Push h x))"
proof -
  have inv: "up_inv (pq_Push h x) (Suc (length h)) (length h)"
    unfolding up_inv_def
  proof (intro conjI allI impI)
    fix k assume k: "0 < k \<and> k < Suc (length h) \<and> k \<noteq> length h"
    then have "k < length h" "(k - 1) div 2 < length h" by arith+
    then show "key (pq_Push h x ! ((k - 1) div 2)) \<le> key (pq_Push h x ! k)"
      using assms k by (simp add: pq_Push_def nth_append heap_upto_def)
  next
    fix k assume "0 < k \<and> k < Suc (length h) \<and> (k - 1) div 2 = length h \<and> 0 < length h"
    then have False by arith
    then show "key (pq_Push h x ! ((length h - 1) div 2)) \<le> key (pq_Push h x ! k)" ..
  qed
  have "heap_upto (up (pq_Push h x) (length h)) (Suc (length h))"
    by (rule up_heap [OF inv]) (simp_all add: pq_Push_def)
  then show ?thesis by (simp add: heap_Push_def pq_Len_def Let_def pq_Push_def)
qed

lemma heap_Push_entries:
  "mset (map entry (heap_Push h x)) = add_mset (entry x) (mset (map entry h))"
proof -
  have "mset (map entry (up (pq_Push h x) (length h))) = mset (map entry (pq_Push h x))"
    by (rule entries_up) (simp add: pq_Push_def)
  then show ?thesis by (simp add: heap_Push_def pq_Len_def Let_def pq_Push_def entry_def)
qed

lemma heap_Pop_facts:
  assumes ne: "h \<noteq> []" and hp: "heap_upto h (length h)"
  shows "\<exists>x h'. heap_Pop h = Some (x, h') \<and> entry x = entry (h ! 0)
           \<and> heap_upto h' (length h') \<and> Suc (length h') = length h
           \<and> mset (map entry h) = add_mset (entry x) (mset (map entry h'))"
proof -
  define n where "n = length h - 1"
  define h1 where "h1 = pq_Swap h 0 n"
  define h2 where "h2 = down h1 0 n"
  have len: "length h = Suc n" using ne by (cases h) (simp_all add: n_def)
  have l1: "length h1 = Suc n" and l2: "length h2 = Suc n" by (simp_all add: h1_def h2_def len)
  have h2ne: "h2 \<noteq> []" using l2 by auto
  have pop: "heap_Pop h = Some ((last h2)\<lparr>index := - 1\<rparr>, butlast h2)"
  proof -
    have h2eq: "down (pq_Swap h 0 (length h - Suc 0)) 0 (length h - Suc 0) = h2"
      by (simp add: h2_def h1_def n_def)
    show ?thesis using ne h2ne by (simp add: heap_Pop_def pq_Pop_def Let_def pq_Len_def h2eq)
  qed
  have inv: "down_inv h1 n 0"
    unfolding down_inv_def
  proof (intro conjI allI impI)
    fix k assume k: "0 < k \<and> k < n \<and> (k - 1) div 2 \<noteq> 0"
    then have "(k - 1) div 2 < n" by arith
    then have "key (h1 ! ((k - 1) div 2)) = key (h ! ((k - 1) div 2))" "key (h1 ! k) = key (h ! k)"
      using k len by (simp_all add: h1_def key_pq_Swap)
    then show "key (h1 ! ((k - 1) div 2)) \<le> key (h1 ! k)"
      using hp k len by (simp add: heap_upto_def)
  next
    fix k assume "0 < k \<and> k < n \<and> (k - 1) div 2 = 0 \<and> (0::nat) < 0"
    then show "key (h1 ! ((0 - 1) div 2)) \<le> key (h1 ! k)" by simp
  qed
  have hp2: "heap_upto h2 n" unfolding h2_def by (rule down_heap [OF inv]) (simp add: l1)
  have df: "mset (map entry h2) = mset (map entry h1) \<and> (\<forall>k. n \<le> k \<longrightarrow> h2 ! k = h1 ! k)"
    unfolding h2_def by (rule down_facts) (simp add: l1)
  have e1: "mset (map entry h1) = mset (map entry h)"
    unfolding h1_def by (rule entries_pq_Swap) (simp_all add: len)
  have lastn: "last h2 = h1 ! n" using df l2 h2ne by (simp add: last_conv_nth)
  have "entry (h1 ! n) = entry (h ! 0)"
    by (simp add: h1_def nth_pq_Swap len)
  then have ex: "entry ((last h2)\<lparr>index := - 1\<rparr>) = entry (h ! 0)"
    using lastn by (simp add: entry_def)
  have hb: "heap_upto (butlast h2) (length (butlast h2))"
    unfolding heap_upto_def
  proof (intro allI impI)
    fix k assume k: "0 < k \<and> k < length (butlast h2)"
    then have kn: "k < n" "(k - 1) div 2 < n" using l2 by auto
    then have "butlast h2 ! k = h2 ! k" "butlast h2 ! ((k - 1) div 2) = h2 ! ((k - 1) div 2)"
      using l2 by (simp_all add: nth_butlast)
    then show "key (butlast h2 ! ((k - 1) div 2)) \<le> key (butlast h2 ! k)"
      using hp2 k kn by (simp add: heap_upto_def)
  qed
  have "h2 = butlast h2 @ [last h2]" using h2ne by simp
  then have "mset (map entry h2) = add_mset (entry (last h2)) (mset (map entry (butlast h2)))"
    by (metis (no_types, lifting) map_append list.simps(8,9) mset.simps(1,2) mset_append
        union_mset_add_mset_right add.right_neutral)
  then have ms: "mset (map entry h) = add_mset (entry ((last h2)\<lparr>index := - 1\<rparr>)) (mset (map entry (butlast h2)))"
    using df e1 by (simp add: entry_def)
  show ?thesis using pop ex hb ms l2 len by simp
qed



lemma entries_heap_Push: "entries (heap_Push h x) = add_mset (entry x) (entries h)"
  unfolding entries_def by (rule heap_Push_entries)

lemma entries_nth: "k < length h \<Longrightarrow> entry (h ! k) \<in># entries h"
  by (simp add: entries_def)

lemma Snapshot_entries: "mset (Snapshot f) = image_mset fst (entries (pq f))"
  by (simp add: Snapshot_def entries_def entry_def multiset.map_comp comp_def)

lemma NewFrontier_inv: "frontier_inv NewFrontier"
  by (simp add: frontier_inv_def NewFrontier_def heap_upto_def consistent_def entries_def)

lemma Push_inv: "frontier_inv f \<Longrightarrow> frontier_inv (Push f req)"
proof (cases "closed f")
  case True
  assume "frontier_inv f"
  with True show ?thesis by (simp add: Push_def)
next
  case False
  assume inv: "frontier_inv f"
  have "heap_upto (heap_Push (pq f) (mk_item req)) (length (heap_Push (pq f) (mk_item req)))"
    using inv by (intro heap_Push_heap) (simp add: frontier_inv_def)
  moreover have "consistent (heap_Push (pq f) (mk_item req))"
    using inv by (simp add: frontier_inv_def consistent_def entries_heap_Push mk_item_def entry_def)
  ultimately show ?thesis using False by (simp add: Push_def frontier_inv_def)
qed

lemma Push_Snapshot:
  "\<not> closed f \<Longrightarrow> mset (Snapshot (Push f req)) = add_mset req (mset (Snapshot f))"
  by (simp add: Snapshot_entries Push_def entries_heap_Push mk_item_def entry_def)

lemma Push_closed [simp]: "closed (Push f req) = closed f"
  by (simp add: Push_def)

lemma Push_Len: "\<not> closed f \<Longrightarrow> Len (Push f req) = Len f + 1"
  by (simp add: Push_def Len_def pq_Len_def)

lemma Push_on_closed: "closed f \<Longrightarrow> Push f req = f"
  by (simp add: Push_def)

lemma TryPop_empty: "pq f = [] \<Longrightarrow> TryPop f = (None, f)"
  by (simp add: TryPop_def pq_Len_def)

lemma TryPop_facts:
  assumes inv: "frontier_inv f" and ne: "pq f \<noteq> []"
  shows "\<exists>r f'. TryPop f = (Some r, f') \<and> frontier_inv f'
           \<and> mset (Snapshot f) = add_mset r (mset (Snapshot f'))
           \<and> (\<forall>r' \<in># mset (Snapshot f). prio r \<le> prio r')
           \<and> Suc (Len f') = Len f \<and> closed f' = closed f"
proof -
  have hp: "heap_upto (pq f) (length (pq f))" using inv by (simp add: frontier_inv_def)
  have cons: "consistent (pq f)" using inv by (simp add: frontier_inv_def)
  obtain x h' where pop: "heap_Pop (pq f) = Some (x, h')" and ex: "entry x = entry (pq f ! 0)"
    and hp': "heap_upto h' (length h')" and len: "Suc (length h') = length (pq f)"
    and ms0: "mset (map entry (pq f)) = add_mset (entry x) (mset (map entry h'))"
    using heap_Pop_facts [OF ne hp] by blast
  have ms: "entries (pq f) = add_mset (entry x) (entries h')"
    using ms0 by (simp only: entries_def)
  have tp: "TryPop f = (Some (request x), f\<lparr>pq := h'\<rparr>)"
    using ne pop by (simp add: TryPop_def pq_Len_def)
  have cons': "consistent h'" using cons by (simp add: consistent_def ms)
  have inv': "frontier_inv (f\<lparr>pq := h'\<rparr>)" using hp' cons' by (simp add: frontier_inv_def)
  have snap: "mset (Snapshot f) = add_mset (request x) (mset (Snapshot (f\<lparr>pq := h'\<rparr>)))"
    by (simp add: Snapshot_entries ms entry_def)
  have minr: "prio (request x) \<le> prio r'" if "r' \<in># mset (Snapshot f)" for r'
  proof -
    from that obtain k where k: "k < length (pq f)" and rk: "r' = request (pq f ! k)"
      by (auto simp: Snapshot_def in_set_conv_nth)
    have pos: "0 < length (pq f)" using ne by simp
    have "key (pq f ! 0) \<le> key (pq f ! k)" by (rule root_min [OF hp k])
    moreover have "priority (pq f ! k) = Priority r'"
      using cons entries_nth [OF k] rk by (auto simp: consistent_def entry_def)
    moreover have "priority (pq f ! 0) = Priority (request (pq f ! 0))"
      using cons entries_nth [OF pos] by (auto simp: consistent_def entry_def)
    moreover have "request x = request (pq f ! 0)" using ex by (simp add: entry_def)
    ultimately show ?thesis by (simp add: key_def prio_def)
  qed
  show ?thesis using tp inv' snap minr len by (simp add: Len_def pq_Len_def)
qed


lemma TryPopN_facts:
  "frontier_inv f \<Longrightarrow>
     sorted (map prio (fst (TryPopN k f)))
     \<and> mset (fst (TryPopN k f)) + mset (Snapshot (snd (TryPopN k f))) = mset (Snapshot f)
     \<and> length (fst (TryPopN k f)) = min k (Len f)"
proof (induction k arbitrary: f)
  case 0
  then show ?case by simp
next
  case (Suc k)
  show ?case
  proof (cases "pq f = []")
    case True
    then have tp: "TryPop f = (None, f)" by (rule TryPop_empty)
    have "fst (TryPopN k f) = [] \<and> snd (TryPopN k f) = f"
      using True
    proof (induction k)
      case 0
      then show ?case by simp
    next
      case (Suc k)
      then show ?case by (simp add: TryPop_empty)
    qed
    then show ?thesis using tp True by (simp add: Len_def pq_Len_def)
  next
    case False
    obtain r f' where tp: "TryPop f = (Some r, f')" and inv': "frontier_inv f'"
      and snap: "mset (Snapshot f) = add_mset r (mset (Snapshot f'))"
      and minr: "\<forall>r' \<in># mset (Snapshot f). prio r \<le> prio r'"
      and len: "Suc (Len f') = Len f"
      using TryPop_facts [OF Suc.prems False] by blast
    have IH: "sorted (map prio (fst (TryPopN k f')))"
      "mset (fst (TryPopN k f')) + mset (Snapshot (snd (TryPopN k f'))) = mset (Snapshot f')"
      "length (fst (TryPopN k f')) = min k (Len f')"
      using Suc.IH [OF inv'] by simp_all
    have sub: "set (fst (TryPopN k f')) \<subseteq> set_mset (mset (Snapshot f))"
    proof
      fix x assume "x \<in> set (fst (TryPopN k f'))"
      then have "x \<in># mset (fst (TryPopN k f')) + mset (Snapshot (snd (TryPopN k f')))" by simp
      then have "x \<in># mset (Snapshot f')" using IH(2) by simp
      then show "x \<in> set_mset (mset (Snapshot f))" using snap by simp
    qed
    have ge: "\<forall>x \<in> set (fst (TryPopN k f')). prio r \<le> prio x"
      using sub minr by blast
    have s1: "sorted (map prio (r # fst (TryPopN k f')))" using IH(1) ge by simp
    have s2: "mset (r # fst (TryPopN k f')) + mset (Snapshot (snd (TryPopN k f'))) = mset (Snapshot f)"
      using IH(2) snap by simp
    have s3: "length (r # fst (TryPopN k f')) = min (Suc k) (Len f)"
      using IH(3) len by simp
    show ?thesis using tp s1 s2 s3 by simp
  qed
qed

lemma foldl_Push_facts:
  "frontier_inv f \<Longrightarrow> \<not> closed f \<Longrightarrow>
     frontier_inv (foldl Push f rs) \<and> \<not> closed (foldl Push f rs)
     \<and> mset (Snapshot (foldl Push f rs)) = mset (Snapshot f) + mset rs"
proof (induction rs arbitrary: f)
  case Nil
  then show ?case by simp
next
  case (Cons r rs)
  have "frontier_inv (Push f r)" "\<not> closed (Push f r)"
    using Cons.prems by (simp_all add: Push_inv)
  then show ?case using Cons.IH [of "Push f r"] Cons.prems by (simp add: Push_Snapshot)
qed

lemma entries_foldl_heap_Push:
  "entries (foldl (\<lambda>h req. heap_Push h (mk_item req)) h reqs)
     = entries h + image_mset (\<lambda>req. entry (mk_item req)) (mset reqs)"
  by (induction reqs arbitrary: h) (simp_all add: entries_heap_Push)

lemma RestoreAll_Snapshot:
  "mset (Snapshot (RestoreAll f reqs)) = mset (Snapshot f) + mset reqs"
proof -
  have "image_mset fst (image_mset (\<lambda>req. entry (mk_item req)) (mset reqs)) = mset reqs"
    by (simp add: multiset.map_comp comp_def mk_item_def entry_def)
  then show ?thesis by (simp add: Snapshot_entries RestoreAll_def entries_foldl_heap_Push)
qed

lemma RestoreAll_Len: "Len (RestoreAll f reqs) = Len f + length reqs"
  by (simp add: Len_def RestoreAll_def pq_Len_def length_foldl_heap_Push)

text \<open>
  C10. On a closed frontier \<open>RestoreAll\<close> still inserts every request it is given (the
  length grows by their number, and the queued requests are the old ones and the given
  ones), while \<open>Push\<close> inserts nothing: the closed flag guards \<open>Push\<close> but not
  \<open>RestoreAll\<close>.
\<close>

theorem restore_all_ignores_closed:
  "closed f \<Longrightarrow>
     Len (RestoreAll f reqs) = Len f + length reqs
     \<and> mset (Snapshot (RestoreAll f reqs)) = mset (Snapshot f) + mset reqs
     \<and> Push f req = f \<and> Len (Push f req) = Len f"
  by (simp add: RestoreAll_Snapshot RestoreAll_Len Push_def)

theorem restore_all_ignores_closed_witness:
  "closed (Close NewFrontier)
   \<and> Len (RestoreAll (Close NewFrontier)
            [request_for ''/a'' 2 ''1'', request_for ''/b'' 0 ''2'']) = 2
   \<and> Len (Push (Close NewFrontier) (request_for ''/c'' 2 ''3'')) = 0"
  using restore_all_ignores_closed
    [of "Close NewFrontier" "[request_for ''/a'' 2 ''1'', request_for ''/b'' 0 ''2'']"
        "request_for ''/c'' 2 ''3''"]
  by (simp add: Close_def NewFrontier_def Len_def pq_Len_def)

text \<open>
  C1 (as the code has it). For every sequence of pushes on a fresh frontier followed by
  pops, the popped requests come out sorted ascending by priority, and as many pops as
  there were pushes return exactly the pushed requests. \<open>Less\<close> compares the priority and
  nothing else, and no sequence number is stored: among requests of one priority the
  order is the one \<open>container/heap\<close> happens to yield.
\<close>

theorem frontier_pops_sorted_by_priority:
  "sorted (map (\<lambda>r. sint (Priority r)) (fst (TryPopN k (foldl Push NewFrontier rs))))
   \<and> mset (fst (TryPopN (length rs) (foldl Push NewFrontier rs))) = mset rs"
proof -
  define f where "f = foldl Push NewFrontier rs"
  have f: "frontier_inv f" "mset (Snapshot f) = mset rs"
    using foldl_Push_facts [OF NewFrontier_inv, of rs]
    by (simp_all add: f_def NewFrontier_def Snapshot_def)
  have lenf: "Len f = length rs"
    using f(2) by (metis Len_def Snapshot_def length_map pq_Len_def size_mset)
  have a: "sorted (map prio (fst (TryPopN k f)))" using TryPopN_facts [OF f(1)] by simp
  have b: "mset (fst (TryPopN (length rs) f)) + mset (Snapshot (snd (TryPopN (length rs) f))) = mset rs"
    and c: "length (fst (TryPopN (length rs) f)) = length rs"
    using TryPopN_facts [OF f(1), of "length rs"] f(2) lenf by simp_all
  have "size (mset (fst (TryPopN (length rs) f))) = size (mset rs)" using c by simp
  then have "mset (Snapshot (snd (TryPopN (length rs) f))) = {#}"
    using b by (metis add_cancel_right_right size_union size_eq_0_iff_empty add.commute
        add_left_cancel size_mset)
  then have d: "mset (fst (TryPopN (length rs) f)) = mset rs" using b by simp
  have "map prio = map (\<lambda>r. sint (Priority r))" by (simp add: prio_def [abs_def])
  then show ?thesis using a d by (simp add: f_def)
qed

theorem frontier_pops_sorted_by_priority_witness:
  "sorted (map (\<lambda>r. sint (Priority r))
            (fst (TryPopN 2 (foldl Push NewFrontier
               [request_for ''/a'' 2 ''1'', request_for ''/b'' 0 ''2'', request_for ''/c'' 2 ''3'']))))
   \<and> mset (fst (TryPopN (length [request_for ''/a'' 2 ''1'', request_for ''/b'' 0 ''2''])
                   (foldl Push NewFrontier
                      [request_for ''/a'' 2 ''1'', request_for ''/b'' 0 ''2''])))
       = mset [request_for ''/a'' 2 ''1'', request_for ''/b'' 0 ''2'']"
  using frontier_pops_sorted_by_priority
      [of 2 "[request_for ''/a'' 2 ''1'', request_for ''/b'' 0 ''2'', request_for ''/c'' 2 ''3'']"]
    frontier_pops_sorted_by_priority
      [of 0 "[request_for ''/a'' 2 ''1'', request_for ''/b'' 0 ''2'']"]
  by blast

text \<open>
  C1 as stated fails: three requests of the same priority pushed in the order \<open>/a\<close>,
  \<open>/b\<close>, \<open>/c\<close> pop in the order \<open>/a\<close>, \<open>/c\<close>, \<open>/b\<close>; \<open>/b\<close> was pushed before \<open>/c\<close> and
  pops after it.
\<close>

theorem frontier_fifo_counterexample:
  "fst (TryPopN 3 (foldl Push NewFrontier
         [request_for ''/a'' 2 ''1'', request_for ''/b'' 2 ''2'', request_for ''/c'' 2 ''3'']))
     = [request_for ''/a'' 2 ''1'', request_for ''/c'' 2 ''3'', request_for ''/b'' 2 ''2'']"
  by code_simp

section \<open>Lifecycle\<close>

text \<open>
  \<open>Stop\<close> is one compare-and-swap from \<open>Running\<close> to \<open>Stopping\<close>: on a running engine it
  closes the frontier and cancels the context, and in every other state it returns at
  once and leaves the engine as it was.
\<close>

lemma Stop_cases:
  "(state e = StateRunning \<longrightarrow>
      state (Stop e) = StateStopping \<and> closed (frontier (Stop e)) \<and> cancelled (Stop e))
   \<and> (state e \<noteq> StateRunning \<longrightarrow> Stop e = e)"
  by (simp add: Stop_def Close_def)

text \<open>
  C5. The claim is that \<open>Stop\<close> moves a paused engine to \<open>Stopping\<close>. The code does not:
  an engine that was started and then paused is returned unchanged by \<open>Stop\<close>. It is
  still \<open>Paused\<close>, not \<open>Stopping\<close>; its frontier is still open and its context is not
  cancelled, so the paused workers, which wait for the context or for a resume, are
  not released. \<open>Stop\<close> on the same engine before the pause does all three: the state
  is \<open>Stopping\<close>, the frontier closed and the context cancelled.
\<close>

theorem stop_from_paused_leaves_engine_paused:
  "state (Pause (snd (Start (New DefaultConfig)))) = StatePaused
   \<and> Stop (Pause (snd (Start (New DefaultConfig)))) = Pause (snd (Start (New DefaultConfig)))
   \<and> state (Stop (Pause (snd (Start (New DefaultConfig))))) = StatePaused
   \<and> state (Stop (Pause (snd (Start (New DefaultConfig))))) \<noteq> StateStopping
   \<and> \<not> closed (frontier (Stop (Pause (snd (Start (New DefaultConfig))))))
   \<and> \<not> cancelled (Stop (Pause (snd (Start (New DefaultConfig)))))
   \<and> sched_paused (Stop (Pause (snd (Start (New DefaultConfig)))))
   \<and> state (Stop (snd (Start (New DefaultConfig)))) = StateStopping
   \<and> closed (frontier (Stop (snd (Start (New DefaultConfig)))))
   \<and> cancelled (Stop (snd (Start (New DefaultConfig))))"
  by (simp add: Start_def New_def Pause_def Stop_def NewFrontier_def Close_def)

section \<open>Deduplicator: membership\<close>

lemma seen_foldl_insert: "x \<in> seen0 \<Longrightarrow> x \<in> foldl (\<lambda>m h. insert h m) seen0 hashes"
  by (induction hashes arbitrary: seen0) simp_all

lemma dedup_step_mono: "op \<noteq> OpReset \<Longrightarrow> seen d \<subseteq> seen (dedup_step ul d op)"
  by (cases op) (auto simp: MarkSeen_def Import_def seen_foldl_insert)

lemma dedup_run_mono: "OpReset \<notin> set ops \<Longrightarrow> seen d \<subseteq> seen (dedup_run ul d ops)"
proof (induction ops arbitrary: d)
  case Nil
  then show ?case by (simp add: dedup_run_def)
next
  case (Cons op ops)
  then have "op \<noteq> OpReset" by auto
  then have "seen d \<subseteq> seen (dedup_step ul d op)" by (rule dedup_step_mono)
  moreover have "seen (dedup_step ul d op) \<subseteq> seen (dedup_run ul (dedup_step ul d op) ops)"
    using Cons by simp
  ultimately show ?case by (simp add: dedup_run_def)
qed

text \<open>
  C9 (as the code has it). In a run of the deduplicator without \<open>Reset\<close>, membership
  only grows, and once \<open>MarkSeen u\<close> has returned every later \<open>IsSeen v\<close> with the same
  canonical form as \<open>u\<close> is true. \<open>Reset\<close> is the one operation that removes
  membership: it empties the set.
\<close>

theorem dedup_monotone_without_reset:
  "(OpReset \<notin> set ops \<longrightarrow> seen d \<subseteq> seen (dedup_run ul d ops))
   \<and> (OpReset \<notin> set ops \<and> CanonicalizeURL ul v = CanonicalizeURL ul u \<longrightarrow>
        IsSeen ul (dedup_run ul (MarkSeen ul d u) ops) v)
   \<and> seen (Reset d) = {}"
proof (intro conjI impI)
  assume "OpReset \<notin> set ops"
  then show "seen d \<subseteq> seen (dedup_run ul d ops)" by (rule dedup_run_mono)
next
  assume a: "OpReset \<notin> set ops \<and> CanonicalizeURL ul v = CanonicalizeURL ul u"
  then have "seen (MarkSeen ul d u) \<subseteq> seen (dedup_run ul (MarkSeen ul d u) ops)"
    by (simp add: dedup_run_mono)
  moreover have "hashURL (CanonicalizeURL ul v) \<in> seen (MarkSeen ul d u)"
    using a by (simp add: MarkSeen_def)
  ultimately show "IsSeen ul (dedup_run ul (MarkSeen ul d u) ops) v"
    by (auto simp: IsSeen_def)
next
  show "seen (Reset d) = {}" by (simp add: Reset_def)
qed

theorem dedup_monotone_without_reset_witness:
  "OpReset \<notin> set [OpMarkSeen ''http://h/b'', OpImport [''00''], OpIsSeen ''http://h/a'']
   \<and> IsSeen (\<lambda>s. s)
        (dedup_run (\<lambda>s. s) (MarkSeen (\<lambda>s. s) NewDeduplicator ''http://h/a'')
           [OpMarkSeen ''http://h/b'', OpImport [''00''], OpIsSeen ''http://h/a''])
        ''http://h/a''"
  using dedup_monotone_without_reset
    [of "[OpMarkSeen ''http://h/b'', OpImport [''00''], OpIsSeen ''http://h/a'']"
        NewDeduplicator "\<lambda>s. s" "''http://h/a''" "''http://h/a''"]
  by simp

text \<open>
  C9 as stated fails: after \<open>MarkSeen\<close> of a URL and then \<open>Reset\<close>, \<open>IsSeen\<close> of the same
  URL is false.
\<close>

theorem dedup_reset_counterexample:
  "\<not> IsSeen (\<lambda>s. s)
       (dedup_run (\<lambda>s. s) (MarkSeen (\<lambda>s. s) NewDeduplicator ''http://h/a'') [OpReset])
       ''http://h/a''"
  by (simp add: dedup_run_def Reset_def IsSeen_def)

section \<open>Admission\<close>

text \<open>
  C7. \<open>AddRequest\<close> checks depth, then dedup, then robots (only when enabled), then the
  domain filter: each error is returned exactly when its check is the first to fail, and
  the four errors are distinct. A failing check adds one to \<open>urls_filtered\<close> and leaves
  the dedup set and the frontier as they were. On success the canonical URL is marked
  seen, the request is pushed to the frontier, and \<open>urls_enqueued\<close> grows by one. The
  push is the frontier's \<open>Push\<close>: on an open frontier the request is queued, so the
  frontier holds it in addition to what it held and is one longer; on a closed frontier
  the push is dropped and the frontier stays as it was.
\<close>

theorem add_request_admission:
  "(let r = AddRequest env e req; err = fst r; e' = snd r;
        ul = unicodeLower env; u = URLString req;
        deep = MaxDepth (cfg e) <s Depth req;
        dup = IsSeen ul (dedup e) u;
        blocked = (RespectRobotsTxt (cfg e) \<and> \<not> fst (IsAllowed (fetchRobotsTxt env) (robots e) u));
        denied = (\<not> isDomainAllowed (cfg e) (Domain req))
    in (err = Some ErrMaxDepth \<longleftrightarrow> deep)
       \<and> (err = Some ErrDuplicate \<longleftrightarrow> \<not> deep \<and> dup)
       \<and> (err = Some ErrBlocked \<longleftrightarrow> \<not> deep \<and> \<not> dup \<and> blocked)
       \<and> (err = Some (ErrDomainNotAllowed (Domain req)) \<longleftrightarrow> \<not> deep \<and> \<not> dup \<and> \<not> blocked \<and> denied)
       \<and> (err = None \<longleftrightarrow> \<not> deep \<and> \<not> dup \<and> \<not> blocked \<and> \<not> denied)
       \<and> (err \<noteq> None \<longrightarrow>
             dedup e' = dedup e \<and> frontier e' = frontier e
             \<and> URLsFiltered (stats e') = URLsFiltered (stats e) + 1
             \<and> URLsEnqueued (stats e') = URLsEnqueued (stats e))
       \<and> (err = None \<longrightarrow>
             dedup e' = MarkSeen ul (dedup e) u \<and> IsSeen ul (dedup e') u
             \<and> frontier e' = Push (frontier e) req
             \<and> URLsEnqueued (stats e') = URLsEnqueued (stats e) + 1
             \<and> URLsFiltered (stats e') = URLsFiltered (stats e))
       \<and> (err = None \<and> \<not> closed (frontier e) \<longrightarrow>
             mset (Snapshot (frontier e')) = add_mset req (mset (Snapshot (frontier e)))
             \<and> Len (frontier e') = Len (frontier e) + 1
             \<and> \<not> closed (frontier e'))
       \<and> (err = None \<and> closed (frontier e) \<longrightarrow> frontier e' = frontier e))"
proof -
  define r where "r = AddRequest env e req"
  have push: "frontier (snd r) = Push (frontier e) req" if "fst r = None"
    using that by (auto simp: r_def AddRequest_def Let_def filtered_def split: if_splits)
  have opened: "mset (Snapshot (frontier (snd r))) = add_mset req (mset (Snapshot (frontier e)))
                \<and> Len (frontier (snd r)) = Len (frontier e) + 1 \<and> \<not> closed (frontier (snd r))"
    if "fst r = None \<and> \<not> closed (frontier e)"
    using that push by (simp add: Push_Snapshot Push_Len)
  have dropped: "frontier (snd r) = frontier e" if "fst r = None \<and> closed (frontier e)"
    using that push by (simp add: Push_on_closed)
  have rest:
    "(let err = fst r; e' = snd r;
        ul = unicodeLower env; u = URLString req;
        deep = MaxDepth (cfg e) <s Depth req;
        dup = IsSeen ul (dedup e) u;
        blocked = (RespectRobotsTxt (cfg e) \<and> \<not> fst (IsAllowed (fetchRobotsTxt env) (robots e) u));
        denied = (\<not> isDomainAllowed (cfg e) (Domain req))
    in (err = Some ErrMaxDepth \<longleftrightarrow> deep)
       \<and> (err = Some ErrDuplicate \<longleftrightarrow> \<not> deep \<and> dup)
       \<and> (err = Some ErrBlocked \<longleftrightarrow> \<not> deep \<and> \<not> dup \<and> blocked)
       \<and> (err = Some (ErrDomainNotAllowed (Domain req)) \<longleftrightarrow> \<not> deep \<and> \<not> dup \<and> \<not> blocked \<and> denied)
       \<and> (err = None \<longleftrightarrow> \<not> deep \<and> \<not> dup \<and> \<not> blocked \<and> \<not> denied)
       \<and> (err \<noteq> None \<longrightarrow>
             dedup e' = dedup e \<and> frontier e' = frontier e
             \<and> URLsFiltered (stats e') = URLsFiltered (stats e) + 1
             \<and> URLsEnqueued (stats e') = URLsEnqueued (stats e))
       \<and> (err = None \<longrightarrow>
             dedup e' = MarkSeen ul (dedup e) u \<and> IsSeen ul (dedup e') u
             \<and> frontier e' = Push (frontier e) req
             \<and> URLsEnqueued (stats e') = URLsEnqueued (stats e) + 1
             \<and> URLsFiltered (stats e') = URLsFiltered (stats e)))"
    unfolding r_def
    by (auto simp: AddRequest_def Let_def filtered_def IsSeen_def MarkSeen_def)
  show ?thesis
    using rest opened dropped unfolding r_def [symmetric] Let_def by blast
qed

text \<open>
  The theorem at three inputs: a request that is too deep on a fresh engine; an admitted
  request on a fresh engine, whose frontier then holds exactly that request; and an
  admitted request on an engine that was started and stopped, whose closed frontier
  stays empty.
\<close>

theorem add_request_admission_witness:
  "fst (AddRequest no_robots_env (New DefaultConfig) ((request_for ''/a'' 2 ''1'')\<lparr>Depth := 6\<rparr>)) = Some ErrMaxDepth
   \<and> URLsFiltered (stats (snd (AddRequest no_robots_env (New DefaultConfig)
                                  ((request_for ''/a'' 2 ''1'')\<lparr>Depth := 6\<rparr>)))) = 1
   \<and> fst (AddRequest no_robots_env (New (DefaultConfig\<lparr>RespectRobotsTxt := False\<rparr>))
            (request_for ''/a'' 2 ''1'')) = None
   \<and> URLsEnqueued (stats (snd (AddRequest no_robots_env (New (DefaultConfig\<lparr>RespectRobotsTxt := False\<rparr>))
                                  (request_for ''/a'' 2 ''1'')))) = 1
   \<and> \<not> closed (frontier (New (DefaultConfig\<lparr>RespectRobotsTxt := False\<rparr>)))
   \<and> Snapshot (frontier (snd (AddRequest no_robots_env (New (DefaultConfig\<lparr>RespectRobotsTxt := False\<rparr>))
                                  (request_for ''/a'' 2 ''1''))))
       = [request_for ''/a'' 2 ''1'']
   \<and> Len (frontier (snd (AddRequest no_robots_env (New (DefaultConfig\<lparr>RespectRobotsTxt := False\<rparr>))
                             (request_for ''/a'' 2 ''1'')))) = 1
   \<and> closed (frontier (Stop (snd (Start (New (DefaultConfig\<lparr>RespectRobotsTxt := False\<rparr>))))))
   \<and> fst (AddRequest no_robots_env (Stop (snd (Start (New (DefaultConfig\<lparr>RespectRobotsTxt := False\<rparr>)))))
            (request_for ''/a'' 2 ''1'')) = None
   \<and> Snapshot (frontier (snd (AddRequest no_robots_env
                                  (Stop (snd (Start (New (DefaultConfig\<lparr>RespectRobotsTxt := False\<rparr>)))))
                                  (request_for ''/a'' 2 ''1'')))) = []"
proof -
  let ?open = "New (DefaultConfig\<lparr>RespectRobotsTxt := False\<rparr>)"
  let ?closed = "Stop (snd (Start (New (DefaultConfig\<lparr>RespectRobotsTxt := False\<rparr>))))"
  let ?rq = "request_for ''/a'' 2 ''1''"
  have deep: "MaxDepth (cfg (New DefaultConfig)) <s Depth (?rq\<lparr>Depth := 6\<rparr>)"
    by (simp add: New_def DefaultConfig_def word_sless_alt)
  have ok: "\<not> MaxDepth (cfg ?open) <s Depth ?rq"
    "\<not> IsSeen (unicodeLower no_robots_env) (dedup ?open) (URLString ?rq)"
    "\<not> RespectRobotsTxt (cfg ?open)"
    "isDomainAllowed (cfg ?open) (Domain ?rq)"
    "\<not> closed (frontier ?open)" "Snapshot (frontier ?open) = []" "Len (frontier ?open) = 0"
    by (simp_all add: New_def DefaultConfig_def word_sless_alt request_for_def
        IsSeen_def NewDeduplicator_def isDomainAllowed_def NewFrontier_def Snapshot_def Len_def
        pq_Len_def)
  have ok2: "\<not> MaxDepth (cfg ?closed) <s Depth ?rq"
    "\<not> IsSeen (unicodeLower no_robots_env) (dedup ?closed) (URLString ?rq)"
    "\<not> RespectRobotsTxt (cfg ?closed)"
    "isDomainAllowed (cfg ?closed) (Domain ?rq)"
    "closed (frontier ?closed)" "Snapshot (frontier ?closed) = []"
    by (simp_all add: New_def Start_def Stop_def Close_def DefaultConfig_def
        word_sless_alt request_for_def IsSeen_def NewDeduplicator_def isDomainAllowed_def
        NewFrontier_def Snapshot_def)
  have z: "URLsFiltered (stats (New DefaultConfig)) = 0"
    "URLsEnqueued (stats ?open) = 0"
    by (simp_all add: New_def zeroStats_def)
  have t1: "fst (AddRequest no_robots_env (New DefaultConfig) (?rq\<lparr>Depth := 6\<rparr>)) = Some ErrMaxDepth"
    "URLsFiltered (stats (snd (AddRequest no_robots_env (New DefaultConfig) (?rq\<lparr>Depth := 6\<rparr>))))
       = URLsFiltered (stats (New DefaultConfig)) + 1"
    using deep add_request_admission [of no_robots_env "New DefaultConfig" "?rq\<lparr>Depth := 6\<rparr>"]
    unfolding Let_def by blast+
  have t2: "fst (AddRequest no_robots_env ?open ?rq) = None"
    "URLsEnqueued (stats (snd (AddRequest no_robots_env ?open ?rq))) = URLsEnqueued (stats ?open) + 1"
    "mset (Snapshot (frontier (snd (AddRequest no_robots_env ?open ?rq))))
       = add_mset ?rq (mset (Snapshot (frontier ?open)))"
    "Len (frontier (snd (AddRequest no_robots_env ?open ?rq))) = Len (frontier ?open) + 1"
    using ok(1-5) add_request_admission [of no_robots_env ?open ?rq]
    unfolding Let_def by blast+
  have t3: "fst (AddRequest no_robots_env ?closed ?rq) = None"
    "frontier (snd (AddRequest no_robots_env ?closed ?rq)) = frontier ?closed"
    using ok2(1-5) add_request_admission [of no_robots_env ?closed ?rq]
    unfolding Let_def by blast+
  have c1: "URLsFiltered (stats (snd (AddRequest no_robots_env (New DefaultConfig) (?rq\<lparr>Depth := 6\<rparr>)))) = 1"
    using t1(2) z(1) by simp
  have c2: "URLsEnqueued (stats (snd (AddRequest no_robots_env ?open ?rq))) = 1"
    using t2(2) z(2) by simp
  have c3: "Snapshot (frontier (snd (AddRequest no_robots_env ?open ?rq))) = [?rq]"
    using t2(3) ok(6) by simp
  have c4: "Len (frontier (snd (AddRequest no_robots_env ?open ?rq))) = 1"
    using t2(4) ok(7) by simp
  have c5: "Snapshot (frontier (snd (AddRequest no_robots_env ?closed ?rq))) = []"
    using t3(2) ok2(6) by simp
  show ?thesis
    using t1(1) c1 t2(1) c2 ok(5) c3 c4 ok2(5) t3(1) c5 by blast
qed

section \<open>Retry\<close>

lemma sint_succ:
  fixes a b :: "64 word"
  assumes "a <s b"
  shows "sint (a + 1) = sint a + 1"
proof -
  have "sint a < sint b" using assms by (simp add: word_sless_alt)
  moreover have "sint b < 2 ^ 63" using sint_lt [of b] by simp
  moreover have "- (2 ^ 63) \<le> sint a" using sint_ge [of a] by simp
  ultimately have "- (2 ^ 63) \<le> sint a + 1" "sint a + 1 < 2 ^ 63" by simp_all
  then have "signed_take_bit 63 (sint a + 1) = sint a + 1"
    by (simp add: signed_take_bit_int_eq_self)
  then show ?thesis by (simp add: sint_word_ariths)
qed

text \<open>
  C2 (as the code has it). When a fetch fails with a retryable \<open>FetchError\<close> while
  \<open>RetryCount < MaxRetries\<close>, the request is pushed to the frontier with \<open>RetryCount\<close>
  one higher (the increment cannot overflow). The push goes to the frontier directly:
  the dedup set and the admission counters are untouched, and an open frontier is one
  longer and holds the request in addition to what it held. \<open>requests_failed\<close> grows by
  one, \<open>responses_error\<close> does not. For a request whose priority is at most
  \<open>PriorityLow\<close> (the classes from \<open>PriorityHighest\<close> to \<open>PriorityLow\<close>) the priority
  becomes \<open>PriorityLow\<close>, which is 3: the request is not moved forward, and it is put in
  the class above \<open>PriorityLowest\<close>, which is 4.
\<close>

theorem retry_reenqueue:
  "Retryable fetchErr \<and> RetryCount req <s MaxRetries req \<longrightarrow>
     (let e' = handleFetchError e req (IsFetchError fetchErr);
          n = RetryCount req + 1;
          req' = req\<lparr>RetryCount := n, Priority := PriorityLow\<rparr>
      in sint n = sint (RetryCount req) + 1
         \<and> (\<exists>p. frontier e' = Push (frontier e) (req\<lparr>RetryCount := n, Priority := p\<rparr>))
         \<and> (\<not> closed (frontier e) \<longrightarrow>
               Len (frontier e') = Len (frontier e) + 1
               \<and> (\<exists>p. mset (Snapshot (frontier e'))
                         = add_mset (req\<lparr>RetryCount := n, Priority := p\<rparr>) (mset (Snapshot (frontier e)))))
         \<and> (Priority req \<le>s PriorityLow \<longrightarrow>
               frontier e' = Push (frontier e) req'
               \<and> Priority req' = 3
               \<and> sint (Priority req) \<le> sint (Priority req')
               \<and> Priority req' \<noteq> PriorityLowest
               \<and> (\<not> closed (frontier e) \<longrightarrow>
                     mset (Snapshot (frontier e')) = add_mset req' (mset (Snapshot (frontier e)))))
         \<and> dedup e' = dedup e
         \<and> URLsEnqueued (stats e') = URLsEnqueued (stats e)
         \<and> URLsFiltered (stats e') = URLsFiltered (stats e)
         \<and> RequestsFailed (stats e') = RequestsFailed (stats e) + 1
         \<and> ResponsesError (stats e') = ResponsesError (stats e))"
proof
  assume a: "Retryable fetchErr \<and> RetryCount req <s MaxRetries req"
  define e' where "e' = handleFetchError e req (IsFetchError fetchErr)"
  define req' where "req' = req\<lparr>RetryCount := RetryCount req + 1, Priority := PriorityLow\<rparr>"
  have n: "sint (RetryCount req + 1) = sint (RetryCount req) + 1"
    using a sint_succ [of "RetryCount req" "MaxRetries req"] by simp
  have f: "frontier e' = Push (frontier e) req'"
    using a by (simp add: e'_def req'_def handleFetchError_def Let_def)
  have s: "dedup e' = dedup e \<and> URLsEnqueued (stats e') = URLsEnqueued (stats e)
         \<and> URLsFiltered (stats e') = URLsFiltered (stats e)
         \<and> RequestsFailed (stats e') = RequestsFailed (stats e) + 1
         \<and> ResponsesError (stats e') = ResponsesError (stats e)"
    using a by (simp add: e'_def handleFetchError_def Let_def)
  have q: "mset (Snapshot (frontier e')) = add_mset req' (mset (Snapshot (frontier e)))
           \<and> Len (frontier e') = Len (frontier e) + 1"
    if "\<not> closed (frontier e)"
    using that f by (simp add: Push_Snapshot Push_Len)
  have p: "Priority req' = 3 \<and> Priority req' \<noteq> PriorityLowest"
    by (simp add: req'_def PriorityLow_def PriorityLowest_def)
  have m: "sint (Priority req) \<le> sint (Priority req')" if "Priority req \<le>s PriorityLow"
    using that by (simp add: req'_def word_sle_eq)
  have ex1: "\<exists>p. frontier e' = Push (frontier e) (req\<lparr>RetryCount := RetryCount req + 1, Priority := p\<rparr>)"
    using f unfolding req'_def by blast
  have ex2: "\<exists>p. mset (Snapshot (frontier e'))
                = add_mset (req\<lparr>RetryCount := RetryCount req + 1, Priority := p\<rparr>)
                    (mset (Snapshot (frontier e)))"
    if "\<not> closed (frontier e)"
    using q [OF that] unfolding req'_def by blast
  show "let e' = handleFetchError e req (IsFetchError fetchErr);
          n = RetryCount req + 1;
          req' = req\<lparr>RetryCount := n, Priority := PriorityLow\<rparr>
      in sint n = sint (RetryCount req) + 1
         \<and> (\<exists>p. frontier e' = Push (frontier e) (req\<lparr>RetryCount := n, Priority := p\<rparr>))
         \<and> (\<not> closed (frontier e) \<longrightarrow>
               Len (frontier e') = Len (frontier e) + 1
               \<and> (\<exists>p. mset (Snapshot (frontier e'))
                         = add_mset (req\<lparr>RetryCount := n, Priority := p\<rparr>) (mset (Snapshot (frontier e)))))
         \<and> (Priority req \<le>s PriorityLow \<longrightarrow>
               frontier e' = Push (frontier e) req'
               \<and> Priority req' = 3
               \<and> sint (Priority req) \<le> sint (Priority req')
               \<and> Priority req' \<noteq> PriorityLowest
               \<and> (\<not> closed (frontier e) \<longrightarrow>
                     mset (Snapshot (frontier e')) = add_mset req' (mset (Snapshot (frontier e)))))
         \<and> dedup e' = dedup e
         \<and> URLsEnqueued (stats e') = URLsEnqueued (stats e)
         \<and> URLsFiltered (stats e') = URLsFiltered (stats e)
         \<and> RequestsFailed (stats e') = RequestsFailed (stats e) + 1
         \<and> ResponsesError (stats e') = ResponsesError (stats e)"
    unfolding Let_def e'_def [symmetric] req'_def [symmetric]
    using n f s q p m ex1 ex2 by blast
qed

text \<open>
  The theorem at a request of priority \<open>PriorityNormal\<close> that failed with a 503 on a
  fresh engine, whose frontier is open and empty: afterwards the frontier holds exactly
  the request with one retry and priority \<open>PriorityLow\<close>.
\<close>

theorem retry_reenqueue_witness:
  "Retryable unavailable_503
   \<and> RetryCount (request_for ''/a'' PriorityNormal ''1'') <s MaxRetries (request_for ''/a'' PriorityNormal ''1'')
   \<and> \<not> closed (frontier (New DefaultConfig))
   \<and> Priority (request_for ''/a'' PriorityNormal ''1'') \<le>s PriorityLow
   \<and> frontier (handleFetchError (New DefaultConfig) (request_for ''/a'' PriorityNormal ''1'')
                 (IsFetchError unavailable_503))
       = Push (frontier (New DefaultConfig))
           ((request_for ''/a'' PriorityNormal ''1'')
              \<lparr>RetryCount := RetryCount (request_for ''/a'' PriorityNormal ''1'') + 1,
               Priority := PriorityLow\<rparr>)
   \<and> Snapshot (frontier (handleFetchError (New DefaultConfig) (request_for ''/a'' PriorityNormal ''1'')
                           (IsFetchError unavailable_503)))
       = [(request_for ''/a'' PriorityNormal ''1'')
              \<lparr>RetryCount := RetryCount (request_for ''/a'' PriorityNormal ''1'') + 1,
               Priority := PriorityLow\<rparr>]
   \<and> Len (frontier (handleFetchError (New DefaultConfig) (request_for ''/a'' PriorityNormal ''1'')
                      (IsFetchError unavailable_503))) = 1
   \<and> RequestsFailed (stats (handleFetchError (New DefaultConfig) (request_for ''/a'' PriorityNormal ''1'')
                               (IsFetchError unavailable_503)))
       = RequestsFailed (stats (New DefaultConfig)) + 1"
proof -
  let ?rq = "request_for ''/a'' PriorityNormal ''1''"
  let ?e' = "handleFetchError (New DefaultConfig) ?rq (IsFetchError unavailable_503)"
  let ?rq' = "?rq\<lparr>RetryCount := RetryCount ?rq + 1, Priority := PriorityLow\<rparr>"
  have h: "Retryable unavailable_503 \<and> RetryCount ?rq <s MaxRetries ?rq"
    by (simp add: unavailable_503_def request_for_def word_sless_alt)
  have o: "\<not> closed (frontier (New DefaultConfig))"
    "Snapshot (frontier (New DefaultConfig)) = []" "Len (frontier (New DefaultConfig)) = 0"
    by (simp_all add: New_def NewFrontier_def Snapshot_def Len_def pq_Len_def)
  have l: "Priority ?rq \<le>s PriorityLow"
    by (simp add: request_for_def PriorityNormal_def PriorityLow_def word_sle_eq)
  have t: "frontier ?e' = Push (frontier (New DefaultConfig)) ?rq'"
    "mset (Snapshot (frontier ?e')) = add_mset ?rq' (mset (Snapshot (frontier (New DefaultConfig))))"
    "Len (frontier ?e') = Len (frontier (New DefaultConfig)) + 1"
    "RequestsFailed (stats ?e') = RequestsFailed (stats (New DefaultConfig)) + 1"
    using h o(1) l retry_reenqueue [of unavailable_503 ?rq "New DefaultConfig"]
    unfolding Let_def by blast+
  have c1: "Snapshot (frontier ?e') = [?rq']"
    using t(2) o(2) by simp
  have c2: "Len (frontier ?e') = 1"
    using t(3) o(3) by simp
  show ?thesis
    using h o(1) l t(1) c1 c2 t(4) by blast
qed

text \<open>
  C2 as stated fails: a request of priority \<open>PriorityNormal\<close> (2) that is retried sits in
  the frontier with priority 3, which is \<open>PriorityLow\<close> and not the lowest class,
  \<open>PriorityLowest\<close> (4).
\<close>

theorem retry_not_lowest_class_counterexample:
  "map Priority (Snapshot (frontier (handleFetchError (New DefaultConfig)
       (request_for ''/a'' PriorityNormal ''1'') (IsFetchError unavailable_503)))) = [3]
   \<and> PriorityNormal = 2 \<and> PriorityLow = 3 \<and> PriorityLowest = 4"
  by (simp add: handleFetchError_def Let_def unavailable_503_def request_for_def New_def NewFrontier_def
      Push_def heap_Push_def pq_Push_def pq_Len_def mk_item_def up.simps Snapshot_def
      PriorityNormal_def PriorityLow_def PriorityLowest_def word_sless_alt)

text \<open>
  The theorem leaves out what the priority of a request below \<open>PriorityLow\<close> becomes.
  The assignment carries the comment \<open>Lower priority for retries\<close>, and a smaller value
  pops earlier; a request of priority \<open>PriorityLowest\<close> (4) that is retried gets
  priority 3 and so moves forward in the frontier.
\<close>

lemma retry_moves_lowest_forward:
  "map Priority (Snapshot (frontier (handleFetchError (New DefaultConfig)
       (request_for ''/a'' PriorityLowest ''1'') (IsFetchError unavailable_503)))) = [3]
   \<and> PriorityLowest = 4"
  by (simp add: handleFetchError_def Let_def unavailable_503_def request_for_def New_def NewFrontier_def
      Push_def heap_Push_def pq_Push_def pq_Len_def mk_item_def up.simps Snapshot_def
      PriorityLow_def PriorityLowest_def word_sless_alt)

section \<open>Fetch outcomes\<close>

lemma AddRequest_core: "core_counters (stats (snd (AddRequest env e r))) = core_counters (stats e)"
  by (simp add: AddRequest_def Let_def filtered_def core_counters_def)

lemma admitAll_core: "core_counters (stats (admitAll env e rs)) = core_counters (stats e)"
  by (induction rs arbitrary: e) (simp_all add: AddRequest_core)

lemma emitItems_core: "core_counters (stats (emitItems e items)) = core_counters (stats e)"
  by (simp add: emitItems_def)

lemma runCallbacks_core:
  "core_counters (stats (runCallbacks env e req resp cbs)) = core_counters (stats e)"
proof (induction cbs arbitrary: e)
  case Nil
  then show ?case by simp
next
  case (Cons cb cbs)
  obtain cbName f where cb: "cb = (cbName, f)" by (cases cb)
  show ?case
    using Cons.IH by (cases "f resp") (simp_all add: cb Let_def admitAll_core emitItems_core)
qed

lemma runCallbacks_Nil_parser [simp]: "parser (emitItems e items) = parser e"
  by (simp add: emitItems_def)

lemma success_core:
  assumes "fetchers e (if FetcherType req = [] then FetcherTypeDefault (cfg e) else FetcherType req) = Some fetcher"
    and "fetcher req = Inr resp"
  shows "core_counters (stats (processRequest env e req))
         = (RequestsSent (stats e) + 1, RequestsFailed (stats e), ResponsesOK (stats e) + 1,
            ResponsesError (stats e), BytesDownloaded (stats e) + ContentLength resp)"
  using assms
  by (simp add: processRequest_def Let_def admitAll_core emitItems_core runCallbacks_core
      split: option.splits) (simp add: core_counters_def)

text \<open>
  C4 (as the code has it). A response with a status from 400 to 499 other than 429,
  whose body decompresses and reads without error, is returned by \<open>Fetch\<close> as a
  response, not as an error: \<open>processRequest\<close> takes the success path, adding one to
  \<open>responses_ok\<close> and nothing to \<open>responses_error\<close> or \<open>requests_failed\<close>, and the request
  is not re-enqueued.
\<close>

theorem client_error_takes_success_path:
  "transport req = DoReturned r \<and> 400 \<le>s hr_StatusCode r \<and> hr_StatusCode r <s 500
   \<and> hr_StatusCode r \<noteq> 429 \<and> hr_body r = BodyRead body
   \<and> fetchers e (if FetcherType req = [] then FetcherTypeDefault (cfg e) else FetcherType req)
       = Some (Fetch until transport) \<longrightarrow>
     (\<exists>resp. Fetch until transport req = Inr resp \<and> StatusCode resp = hr_StatusCode r)
     \<and> (let e' = processRequest env e req
        in ResponsesOK (stats e') = ResponsesOK (stats e) + 1
           \<and> ResponsesError (stats e') = ResponsesError (stats e)
           \<and> RequestsFailed (stats e') = RequestsFailed (stats e)
           \<and> RequestsSent (stats e') = RequestsSent (stats e) + 1
           \<and> (callbacks e = [] \<and> parser e = None \<longrightarrow> frontier e' = frontier e))"
proof (intro impI)
  assume a: "transport req = DoReturned r \<and> 400 \<le>s hr_StatusCode r \<and> hr_StatusCode r <s 500
   \<and> hr_StatusCode r \<noteq> 429 \<and> hr_body r = BodyRead body
   \<and> fetchers e (if FetcherType req = [] then FetcherTypeDefault (cfg e) else FetcherType req)
       = Some (Fetch until transport)"
  have n5: "\<not> 500 \<le>s hr_StatusCode r" using a by (simp add: word_sle_eq word_sless_alt)
  define resp where "resp = \<lparr>StatusCode = hr_StatusCode r, RespBody = body, RespRequest = req,
     ContentType = hr_ContentType r, ContentLength = of_nat (length body), FinalURL = hr_FinalURL r\<rparr>"
  have f: "Fetch until transport req = Inr resp"
    using a n5 by (simp add: Fetch_def resp_def)
  have c: "core_counters (stats (processRequest env e req))
         = (RequestsSent (stats e) + 1, RequestsFailed (stats e), ResponsesOK (stats e) + 1,
            ResponsesError (stats e), BytesDownloaded (stats e) + ContentLength resp)"
    using success_core [of e req "Fetch until transport" resp env] a f by simp
  have fr: "frontier (processRequest env e req) = frontier e" if "callbacks e = [] \<and> parser e = None"
    using that a f by (simp add: processRequest_def Let_def)
  show "(\<exists>resp. Fetch until transport req = Inr resp \<and> StatusCode resp = hr_StatusCode r)
     \<and> (let e' = processRequest env e req
        in ResponsesOK (stats e') = ResponsesOK (stats e) + 1
           \<and> ResponsesError (stats e') = ResponsesError (stats e)
           \<and> RequestsFailed (stats e') = RequestsFailed (stats e)
           \<and> RequestsSent (stats e') = RequestsSent (stats e) + 1
           \<and> (callbacks e = [] \<and> parser e = None \<longrightarrow> frontier e' = frontier e))"
    using f c fr by (simp add: Let_def core_counters_def resp_def)
qed

theorem client_error_takes_success_path_witness:
  "400 \<le>s hr_StatusCode not_found_404 \<and> hr_StatusCode not_found_404 <s 500
   \<and> hr_StatusCode not_found_404 \<noteq> 429
   \<and> ResponsesError
        (stats (processRequest no_robots_env
                  (SetFetcher (New DefaultConfig) ''http''
                     (Fetch (\<lambda>h. None) (\<lambda>q. DoReturned not_found_404)))
                  (request_for ''/a'' 2 ''1'')))
       = ResponsesError
           (stats (SetFetcher (New DefaultConfig) ''http''
                     (Fetch (\<lambda>h. None) (\<lambda>q. DoReturned not_found_404))))"
proof -
  have h: "(\<lambda>q. DoReturned not_found_404) (request_for ''/a'' 2 ''1'') = DoReturned not_found_404
     \<and> 400 \<le>s hr_StatusCode not_found_404 \<and> hr_StatusCode not_found_404 <s 500
     \<and> hr_StatusCode not_found_404 \<noteq> 429 \<and> hr_body not_found_404 = BodyRead ''not found''
     \<and> fetchers (SetFetcher (New DefaultConfig) ''http''
                    (Fetch (\<lambda>h. None) (\<lambda>q. DoReturned not_found_404)))
          (if FetcherType (request_for ''/a'' 2 ''1'') = []
           then FetcherTypeDefault (cfg (SetFetcher (New DefaultConfig) ''http''
                    (Fetch (\<lambda>h. None) (\<lambda>q. DoReturned not_found_404))))
           else FetcherType (request_for ''/a'' 2 ''1''))
         = Some (Fetch (\<lambda>h. None) (\<lambda>q. DoReturned not_found_404))"
    by (simp add: not_found_404_def SetFetcher_def request_for_def word_sle_eq word_sless_alt)
  show ?thesis
    using h client_error_takes_success_path
      [of "\<lambda>q. DoReturned not_found_404" "request_for ''/a'' 2 ''1''" not_found_404
          "''not found''"
          "SetFetcher (New DefaultConfig) ''http'' (Fetch (\<lambda>h. None) (\<lambda>q. DoReturned not_found_404))"
          "\<lambda>h. None" no_robots_env]
    unfolding Let_def by blast
qed

text \<open>
  C4 as stated fails: after a 404 with a readable body \<open>responses_ok\<close> is 1 and
  \<open>responses_error\<close> and \<open>requests_failed\<close> are still 0.
\<close>

theorem client_error_counterexample:
  "ResponsesOK (stats (processRequest no_robots_env
       (SetFetcher (New DefaultConfig) ''http'' (Fetch (\<lambda>h. None) (\<lambda>q. DoReturned not_found_404)))
       (request_for ''/a'' 2 ''1''))) = 1
   \<and> ResponsesError (stats (processRequest no_robots_env
       (SetFetcher (New DefaultConfig) ''http'' (Fetch (\<lambda>h. None) (\<lambda>q. DoReturned not_found_404)))
       (request_for ''/a'' 2 ''1''))) = 0
   \<and> RequestsFailed (stats (processRequest no_robots_env
       (SetFetcher (New DefaultConfig) ''http'' (Fetch (\<lambda>h. None) (\<lambda>q. DoReturned not_found_404)))
       (request_for ''/a'' 2 ''1''))) = 0"
  by (simp add: processRequest_def Fetch_def SetFetcher_def New_def DefaultConfig_def
      not_found_404_def request_for_def zeroStats_def Let_def word_sle_eq)

text \<open>
  C3 (as the code has it). A \<open>client.Do\<close> error that wraps \<open>context.Canceled\<close> is
  classified not retryable, and the request is never re-enqueued; the outcome is
  counted as a failure: \<open>requests_failed\<close> and \<open>responses_error\<close> each grow by one.
\<close>

theorem cancelled_fetch_terminal_and_counted:
  "is_Canceled err \<and> transport req = DoFailed err
   \<and> fetchers e (if FetcherType req = [] then FetcherTypeDefault (cfg e) else FetcherType req)
       = Some (Fetch until transport) \<longrightarrow>
     \<not> isRetryableError (Some err)
     \<and> (\<exists>fetchErr. Fetch until transport req = Inl (IsFetchError fetchErr) \<and> \<not> Retryable fetchErr)
     \<and> (let e' = processRequest env e req
        in frontier e' = frontier e
           \<and> RequestsFailed (stats e') = RequestsFailed (stats e) + 1
           \<and> ResponsesError (stats e') = ResponsesError (stats e) + 1
           \<and> ResponsesOK (stats e') = ResponsesOK (stats e)
           \<and> RequestsSent (stats e') = RequestsSent (stats e) + 1)"
  by (simp add: isRetryableError_def Fetch_def processRequest_def handleFetchError_def Let_def)

theorem cancelled_fetch_terminal_and_counted_witness:
  "is_Canceled cancelled_error
   \<and> RequestsFailed
        (stats (processRequest no_robots_env
                  (SetFetcher (New DefaultConfig) ''http''
                     (Fetch (\<lambda>h. None) (\<lambda>q. DoFailed cancelled_error)))
                  (request_for ''/a'' 2 ''1'')))
       = RequestsFailed
           (stats (SetFetcher (New DefaultConfig) ''http''
                     (Fetch (\<lambda>h. None) (\<lambda>q. DoFailed cancelled_error)))) + 1"
proof -
  have h: "is_Canceled cancelled_error
     \<and> (\<lambda>q. DoFailed cancelled_error) (request_for ''/a'' 2 ''1'') = DoFailed cancelled_error
     \<and> fetchers (SetFetcher (New DefaultConfig) ''http''
                    (Fetch (\<lambda>h. None) (\<lambda>q. DoFailed cancelled_error)))
          (if FetcherType (request_for ''/a'' 2 ''1'') = []
           then FetcherTypeDefault (cfg (SetFetcher (New DefaultConfig) ''http''
                    (Fetch (\<lambda>h. None) (\<lambda>q. DoFailed cancelled_error))))
           else FetcherType (request_for ''/a'' 2 ''1''))
         = Some (Fetch (\<lambda>h. None) (\<lambda>q. DoFailed cancelled_error))"
    by (simp add: cancelled_error_def SetFetcher_def request_for_def)
  show ?thesis
    using h cancelled_fetch_terminal_and_counted
      [of cancelled_error "\<lambda>q. DoFailed cancelled_error" "request_for ''/a'' 2 ''1''"
          "SetFetcher (New DefaultConfig) ''http'' (Fetch (\<lambda>h. None) (\<lambda>q. DoFailed cancelled_error))"
          "\<lambda>h. None" no_robots_env]
    unfolding Let_def by blast
qed

text \<open>
  C3 as stated fails: after a cancelled fetch on a fresh engine \<open>requests_failed\<close> is 1,
  not 0.
\<close>

theorem cancelled_fetch_counterexample:
  "RequestsFailed (stats (SetFetcher (New DefaultConfig) ''http''
       (Fetch (\<lambda>h. None) (\<lambda>q. DoFailed cancelled_error)))) = 0
   \<and> RequestsFailed (stats (processRequest no_robots_env
       (SetFetcher (New DefaultConfig) ''http'' (Fetch (\<lambda>h. None) (\<lambda>q. DoFailed cancelled_error)))
       (request_for ''/a'' 2 ''1''))) = 1"
  by (simp add: processRequest_def Fetch_def SetFetcher_def New_def DefaultConfig_def
      cancelled_error_def request_for_def zeroStats_def Let_def handleFetchError_def
      isRetryableError_def)

section \<open>Retry-After\<close>

lemma sint_Second: "sint Second = 1000000000"
  by (simp add: Second_def)

lemma sint_times_Second:
  fixes v :: "64 word"
  assumes "0 \<le> sint v" "sint v \<le> 120"
  shows "sint (v * Second) = sint v * 1000000000"
proof -
  have "sint v * 1000000000 \<le> 120 * 1000000000" using assms by simp
  then have "sint v * 1000000000 < 2 ^ 63" by simp
  moreover have "- (2 ^ 63) \<le> sint v * 1000000000" using assms by simp
  ultimately have "signed_take_bit 63 (sint v * 1000000000) = sint v * 1000000000"
    by (simp add: signed_take_bit_int_eq_self)
  then show ?thesis by (simp add: sint_word_ariths sint_Second)
qed

lemma clamp_secs:
  fixes secs :: "64 word"
  assumes "0 \<le>s secs"
  shows "sint (if 120 <s secs then 120 else secs) = min (sint secs) 120"
    and "0 \<le> sint (if 120 <s secs then 120 else secs)"
    and "sint (if 120 <s secs then 120 else secs) \<le> 120"
  using assms by (auto simp: word_sless_alt word_sle_eq)

text \<open>
  C6 (as the code has it). An empty \<open>Retry-After\<close> value, and one that is neither an
  integer nor an HTTP-date, give 5 seconds. A non-negative integer \<open>n\<close> gives
  \<open>min n 120\<close> seconds, so \<open>0\<close> gives no back-off at all. An HTTP-date gives one second
  when it lies in the past, the time left until it when that is at most 120 seconds,
  which may be less than a second, and 120 seconds when more is left. In all these
  cases the duration is between 0 and 120 seconds.
\<close>

theorem retry_after_bounds:
  "(header = [] \<longrightarrow> parseRetryAfter until header = 5 * Second)
   \<and> (header \<noteq> [] \<and> Atoi (TrimSpace header) = Some secs \<and> 0 \<le>s secs \<longrightarrow>
        sint (parseRetryAfter until header) = min (sint secs) 120 * 1000000000
        \<and> 0 \<le> sint (parseRetryAfter until header)
        \<and> sint (parseRetryAfter until header) \<le> 120 * 1000000000)
   \<and> (header \<noteq> [] \<and> Atoi (TrimSpace header) = None \<and> until header = Some d \<longrightarrow>
        0 \<le> sint (parseRetryAfter until header)
        \<and> sint (parseRetryAfter until header) \<le> 120 * 1000000000
        \<and> (d <s 0 \<longrightarrow> parseRetryAfter until header = Second)
        \<and> (0 \<le>s d \<and> d \<le>s 120 * Second \<longrightarrow> parseRetryAfter until header = d)
        \<and> (120 * Second <s d \<longrightarrow> parseRetryAfter until header = 120 * Second))
   \<and> (header \<noteq> [] \<and> Atoi (TrimSpace header) = None \<and> until header = None \<longrightarrow>
        parseRetryAfter until header = 5 * Second)"
proof -
  have A: "parseRetryAfter until header = 5 * Second" if "header = []"
    using that by (simp add: parseRetryAfter_def)
  have B: "sint (parseRetryAfter until header) = min (sint secs) 120 * 1000000000
        \<and> 0 \<le> sint (parseRetryAfter until header)
        \<and> sint (parseRetryAfter until header) \<le> 120 * 1000000000"
    if a: "header \<noteq> [] \<and> Atoi (TrimSpace header) = Some secs \<and> 0 \<le>s secs"
  proof -
    define v where "v = (if 120 <s secs then 120 else secs)"
    have p: "parseRetryAfter until header = v * Second"
      using a by (simp add: parseRetryAfter_def v_def)
    have v: "sint v = min (sint secs) 120" "0 \<le> sint v" "sint v \<le> 120"
      unfolding v_def using clamp_secs [of secs] a by simp_all
    have "sint (v * Second) = sint v * 1000000000" using v sint_times_Second [of v] by simp
    then show ?thesis using p v by simp
  qed
  have C: "0 \<le> sint (parseRetryAfter until header)
        \<and> sint (parseRetryAfter until header) \<le> 120 * 1000000000
        \<and> (d <s 0 \<longrightarrow> parseRetryAfter until header = Second)
        \<and> (0 \<le>s d \<and> d \<le>s 120 * Second \<longrightarrow> parseRetryAfter until header = d)
        \<and> (120 * Second <s d \<longrightarrow> parseRetryAfter until header = 120 * Second)"
    if a: "header \<noteq> [] \<and> Atoi (TrimSpace header) = None \<and> until header = Some d"
  proof -
    have p: "parseRetryAfter until header
             = (if d <s 0 then Second else if 2 * Minute <s d then 2 * Minute else d)"
      using a by (simp add: parseRetryAfter_def)
    have m: "sint (2 * Minute) = 120000000000" "2 * Minute = 120 * Second"
      by (simp_all add: Minute_def Second_def)
    show ?thesis
      unfolding p using m by (auto simp: word_sless_alt word_sle_eq sint_Second)
  qed
  have D: "parseRetryAfter until header = 5 * Second"
    if "header \<noteq> [] \<and> Atoi (TrimSpace header) = None \<and> until header = None"
    using that by (simp add: parseRetryAfter_def)
  show ?thesis using A B C D by blast
qed

theorem retry_after_bounds_witness:
  "parseRetryAfter (\<lambda>h. None) [] = 5 * Second
   \<and> Atoi (TrimSpace '' 7 '') = Some 7 \<and> (0::64 word) \<le>s 7
   \<and> sint (parseRetryAfter (\<lambda>h. None) '' 7 '') = 7000000000
   \<and> Atoi (TrimSpace ''300'') = Some 300 \<and> (0::64 word) \<le>s 300
   \<and> sint (parseRetryAfter (\<lambda>h. None) ''300'') = 120000000000
   \<and> Atoi (TrimSpace ''Wed, 21 Oct 2015 07:28:00 GMT'') = None
   \<and> parseRetryAfter (\<lambda>h. Some (- 5)) ''Wed, 21 Oct 2015 07:28:00 GMT'' = Second
   \<and> parseRetryAfter (\<lambda>h. Some 500) ''Wed, 21 Oct 2015 07:28:00 GMT'' = 500
   \<and> 120 * Second <s 200 * Second
   \<and> parseRetryAfter (\<lambda>h. Some (200 * Second)) ''Wed, 21 Oct 2015 07:28:00 GMT'' = 120 * Second
   \<and> parseRetryAfter (\<lambda>h. None) ''Wed, 21 Oct 2015 07:28:00 GMT'' = 5 * Second"
proof -
  have a: "Atoi (TrimSpace '' 7 '') = Some 7" "Atoi (TrimSpace ''300'') = Some 300"
    "Atoi (TrimSpace ''Wed, 21 Oct 2015 07:28:00 GMT'') = None"
    by code_simp+
  have b: "(0::64 word) \<le>s 7" "(0::64 word) \<le>s 300" "(- 5 :: 64 word) <s 0"
    "(0::64 word) \<le>s 500 \<and> (500::64 word) \<le>s 120 * Second"
    "120 * Second <s 200 * Second"
    by (simp_all add: word_sle_eq word_sless_alt Second_def)
  have i: "sint (parseRetryAfter (\<lambda>h. None) '' 7 '') = 7000000000"
    "sint (parseRetryAfter (\<lambda>h. None) ''300'') = 120000000000"
    using a b
      retry_after_bounds [of "'' 7 ''" "\<lambda>h. None" 7 0]
      retry_after_bounds [of "''300''" "\<lambda>h. None" 300 0]
    by simp_all
  have d: "parseRetryAfter (\<lambda>h. Some (- 5)) ''Wed, 21 Oct 2015 07:28:00 GMT'' = Second"
    "parseRetryAfter (\<lambda>h. Some 500) ''Wed, 21 Oct 2015 07:28:00 GMT'' = 500"
    "parseRetryAfter (\<lambda>h. Some (200 * Second)) ''Wed, 21 Oct 2015 07:28:00 GMT'' = 120 * Second"
    "parseRetryAfter (\<lambda>h. None) ''Wed, 21 Oct 2015 07:28:00 GMT'' = 5 * Second"
    "parseRetryAfter (\<lambda>h. None) [] = 5 * Second"
    using a b
      retry_after_bounds [of "''Wed, 21 Oct 2015 07:28:00 GMT''" "\<lambda>h. Some (- 5)" 0 "- 5"]
      retry_after_bounds [of "''Wed, 21 Oct 2015 07:28:00 GMT''" "\<lambda>h. Some 500" 0 500]
      retry_after_bounds [of "''Wed, 21 Oct 2015 07:28:00 GMT''" "\<lambda>h. Some (200 * Second)" 0 "200 * Second"]
      retry_after_bounds [of "''Wed, 21 Oct 2015 07:28:00 GMT''" "\<lambda>h. None" 0 0]
      retry_after_bounds [of "[]" "\<lambda>h. None" 0 0]
    by simp_all
  show ?thesis using a b i d by simp
qed

text \<open>
  C6 as stated fails: \<open>Retry-After: 0\<close> gives a duration of zero, less than one second.
\<close>

theorem retry_after_zero_counterexample:
  "parseRetryAfter (\<lambda>h. None) ''0'' = 0 \<and> sint (parseRetryAfter (\<lambda>h. None) ''0'') < sint Second"
proof -
  have "Atoi (TrimSpace ''0'') = Some 0" by code_simp
  then show ?thesis by (simp add: parseRetryAfter_def Second_def word_sless_alt)
qed

text \<open>
  A negative integer is not clamped from below, and the multiplication by
  \<open>time.Second\<close> can wrap around: \<open>Retry-After: -9223372037\<close> gives a positive duration
  of about 292 years.
\<close>

lemma retry_after_negative_wraps:
  "sint (parseRetryAfter (\<lambda>h. None) ''-9223372037'') = 9223372036709551616"
proof -
  have "Atoi (TrimSpace ''-9223372037'') = Some (word_of_int (- 9223372037))" by code_simp
  then show ?thesis by (simp add: parseRetryAfter_def Second_def word_sless_alt)
qed

section \<open>Canonicalization\<close>

text \<open>
  The URL variants of the repository's own test (part_012,
  \<open>TestDeduplicatorURLVariants\<close>) have one canonical form.
\<close>

lemma canonical_variants_agree:
  "CanonicalizeURL (\<lambda>s. s) ''https://Example.COM/Path?b=2&a=1'' = ''https://example.com/Path?a=1&b=2''
   \<and> CanonicalizeURL (\<lambda>s. s) ''https://example.com/Path?b=2&a=1'' = ''https://example.com/Path?a=1&b=2''
   \<and> CanonicalizeURL (\<lambda>s. s) ''https://example.com/Path?a=1&b=2'' = ''https://example.com/Path?a=1&b=2''"
  by code_simp

text \<open>
  C8 does not hold of the code. For \<open>http://[::1:80]:80/\<close>, a URL with an IPv6 literal as
  host and the default port, \<open>CanonicalizeURL\<close> removes the port and with it the
  brackets (\<open>Hostname\<close> strips them) and returns \<open>http://::1:80/\<close>. Canonicalizing that
  again reads \<open>:80\<close> as a default port once more and returns \<open>http://::1/\<close>: the second
  pass changes the result of the first.
\<close>

theorem canonicalize_twice_differs:
  "CanonicalizeURL (\<lambda>s. s) ''http://[::1:80]:80/'' = ''http://::1:80/''
   \<and> CanonicalizeURL (\<lambda>s. s) (CanonicalizeURL (\<lambda>s. s) ''http://[::1:80]:80/'') = ''http://::1/''"
  by code_simp

text \<open>The same happens without brackets, for a host that ends in two port-like parts.\<close>

lemma canonicalize_twice_differs_plain_host:
  "CanonicalizeURL (\<lambda>s. s) ''http://a:80:80/'' = ''http://a:80/''
   \<and> CanonicalizeURL (\<lambda>s. s) ''http://a:80/'' = ''http://a/''"
  by code_simp

end
